(* ===== verification/Bloom_Prelude.thy ===== *)
theory Bloom_Prelude
  imports Main "HOL-Library.Word"
begin

text \<open>
  Shared vocabulary of the Bloom filter development: the Go machine types as words,
  the error values that Go functions return, the runtime panics that abort them, and
  generic lemmas on lists and single-bit masks that every component uses.
  The error values are \<open>errors.go\<close> (\<open>ErrZeroElements\<close>, \<open>ErrProbability\<close>) together
  with the errors of the library calls that \<open>hash\<close> makes (\<open>hash.Hash.Write\<close>,
  \<open>strconv.ParseUint\<close>).
\<close>

unbundle bit_operations_syntax

type_synonym byte = "8 word"
type_synonym u32 = "32 word"
type_synonym u64 = "64 word"
type_synonym bytes = "byte list"

text \<open>A Go string literal as the byte slice \<open>[]byte(s)\<close> (ASCII literals only; other
  literals are written as their UTF-8 bytes), and the newline that \<open>fmt.Println\<close> appends.\<close>

definition bytes_of :: "string \<Rightarrow> bytes" where
  "bytes_of s = map (\<lambda>c. word_of_nat (of_char c)) s"

definition newline :: string where
  "newline = [CHR 0x0A]"

named_theorems bloom_simps "definitions and equations the Bloom filter proofs unfold"

subsection \<open>Go errors and panics\<close>

text \<open>
  \<open>error\<close>: the values a Go function returns in its \<open>error\<close> result.
  \<open>ErrZeroElements\<close> and \<open>ErrProbability\<close> are the two constants of \<open>errors.go\<close>;
  \<open>ErrWrite\<close> is a failure of \<open>h.Write\<close> on the digest; \<open>ErrSyntax\<close> and
  \<open>ErrRange\<close> are the two \<open>*strconv.NumError\<close> kinds of \<open>strconv.ParseUint\<close>.
\<close>

datatype error =
    ErrZeroElements
  | ErrProbability
  | ErrWrite
  | ErrSyntax
  | ErrRange

text \<open>
  \<open>panic\<close>: what aborts a Go call instead of returning: an index out of range on a
  slice, slicing a string beyond its length, an integer division by zero, a method call on
  a nil \<open>*Filter\<close>, and the explicit
  \<open>panic(err)\<close> of \<open>MustAdd\<close> and \<open>MustHave\<close>.
\<close>

datatype panic =
    IndexOutOfRange
  | SliceBoundsOutOfRange
  | IntegerDivideByZero
  | NilDereference
  | PanicError error

primrec error_message :: "error \<Rightarrow> string" where
  "error_message ErrZeroElements = ''number of elements must be positive''"
| "error_message ErrProbability = ''probability must be positive''"
| "error_message ErrWrite = ''sha256: write failed''"
| "error_message ErrSyntax = ''strconv.ParseUint: invalid syntax''"
| "error_message ErrRange = ''strconv.ParseUint: value out of range''"

subsection \<open>Positions in a word array\<close>

text \<open>
  A word array of \<open>64\<close>-bit words read as a flat bit array: bit \<open>i\<close> lives in word
  \<open>i div 64\<close> at offset \<open>i mod 64\<close>. \<open>bits_of ws\<close> is the set of positions that are 1.
\<close>

definition bits_of :: "u64 list \<Rightarrow> nat set" where
  "bits_of ws = {i. i < 64 * length ws \<and> bit (ws ! (i div 64)) (i mod 64)}"

subsection \<open>Single-bit masks on words\<close>

text \<open>\<open>1 << offset\<close> on a Go unsigned word is \<open>push_bit offset 1\<close>; a shift by the
  width or more gives 0 in both.\<close>

text \<open>The simplifier rewrites \<open>push_bit k 1\<close> to \<open>2 ^ k\<close>; the mask lemmas are
  stated in that normal form.\<close>

lemma bit_or_mask [simp]:
  "bit ((w::'a::len word) OR 2 ^ k) m \<longleftrightarrow> bit w m \<or> (m = k \<and> k < LENGTH('a))"
  by (auto simp: bit_or_iff bit_exp_iff)

lemma and_mask_eq_0 [simp]:
  "((w::'a::len word) AND 2 ^ k = 0) \<longleftrightarrow> \<not> bit w k"
  by (simp add: and_exp_eq_0_iff_not_bit)

lemma or_mask_idem:
  "bit (w::'a::len word) k \<Longrightarrow> w OR 2 ^ k = w"
  by (rule bit_word_eqI) (auto simp: bit_or_iff bit_exp_iff)

subsection \<open>Conversions between widths\<close>

text \<open>\<open>uint64(b)\<close> of a Go \<open>byte\<close> keeps its value; \<open>int(x)\<close> of a \<open>uint64\<close>
  reinterprets the 64 bits as two's complement, which is the value itself below
  \<open>2 ^ 63\<close>.\<close>

lemma unat_ucast_byte [simp]: "unat (ucast (b::byte) :: u64) = unat b"
proof -
  have "unat b < 2 ^ 8" using unsigned_less [of b] by simp
  then have "unat b < 2 ^ 64" by (rule less_le_trans) simp
  then show ?thesis by (simp add: unsigned_ucast_eq take_bit_nat_eq_self_iff)
qed

lemma sint_eq_uint_small:
  "uint (w::'a::len word) < 2 ^ (LENGTH('a) - 1) \<Longrightarrow> sint w = uint w"
proof -
  assume small: "uint w < 2 ^ (LENGTH('a) - 1)"
  have "- (2 ^ (LENGTH('a) - 1)) \<le> (0::int)" by simp
  also have "0 \<le> uint w" by simp
  finally show ?thesis using small by (simp add: sint_uint signed_take_bit_int_eq_self)
qed

text \<open>A loop counter below a bound of the same width is incremented without wrapping.\<close>

lemma unat_succ_less:
  assumes "(x::'a::len word) < y"
  shows "unat (x + 1) = unat x + 1"
proof -
  have "unat x < unat y" using assms by (simp add: word_less_nat_alt)
  moreover have "unat y < 2 ^ LENGTH('a)" using unsigned_less [of y] by simp
  ultimately have "unat x + 1 < 2 ^ LENGTH('a)" by linarith
  then show ?thesis by (simp add: unat_word_ariths)
qed

lemma ucast_u64_byte_nat:
  "(ucast (x::u64) :: byte) = word_of_nat (unat x)"
proof -
  have "unat (ucast x :: byte) = unat (word_of_nat (unat x) :: byte)"
    by (simp add: unsigned_ucast_eq take_bit_eq_mod unat_of_nat)
  then show ?thesis by (simp add: word_unat_eq_iff)
qed

subsection \<open>Lists updated in place\<close>

lemma nth_update_or [simp]:
  "i < length xs \<Longrightarrow> xs[i := f (xs ! i)] ! j = (if j = i then f (xs ! i) else xs ! j)"
  by (simp add: nth_list_update)

lemma update_self_idem:
  "i < length xs \<Longrightarrow> f (xs ! i) = xs ! i \<Longrightarrow> xs[i := f (xs ! i)] = xs"
  by (simp add: list_update_same_conv)

subsection \<open>Bits of a word array\<close>

lemma mem_bits_of:
  "i \<in> bits_of ws \<longleftrightarrow> i < 64 * length ws \<and> bit (ws ! (i div 64)) (i mod 64)"
  by (simp add: bits_of_def)

lemma bits_of_replicate_0 [simp]: "bits_of (replicate k 0) = {}"
  by (simp add: bits_of_def)

lemma div_64_less: "i < 64 * k \<Longrightarrow> i div 64 < (k::nat)"
  by (simp add: less_mult_imp_div_less mult.commute)

lemma bits_of_set_bit:
  assumes "j < 64 * length ws"
  shows "bits_of (ws[j div 64 := ws ! (j div 64) OR 2 ^ (j mod 64)]) = insert j (bits_of ws)"
proof -
  have k: "j div 64 < length ws" using assms by (rule div_64_less)
  have same: "\<And>i. i div 64 = j div 64 \<Longrightarrow> i mod 64 = j mod 64 \<Longrightarrow> i = j"
    by (metis div_mult_mod_eq)
  show ?thesis
  proof (rule set_eqI)
    fix i
    show "i \<in> bits_of (ws[j div 64 := ws ! (j div 64) OR 2 ^ (j mod 64)]) \<longleftrightarrow> i \<in> insert j (bits_of ws)"
      using assms k same [of i] by (cases "i div 64 = j div 64") (auto simp: bits_of_def)
  qed
qed

end
