(* ===== verification/Hex_Codec.thy ===== *)
theory Hex_Codec
  imports Bloom_Prelude
begin

text \<open>
  The two library conversions that \<open>hash\<close> of \<open>bloom.go\<close> chains after the digest:
  \<open>fmt.Sprintf("%x", sum)\<close>, which prints a byte slice as lower-case hexadecimal, two
  characters per byte, and \<open>strconv.ParseUint(s, 16, 64)\<close>, which reads a hexadecimal
  string into a \<open>uint64\<close>. They belong to the Go standard library, not to this
  repository; they are modelled from the library's documented behaviour, with
  \<open>ParseUint\<close>'s digit loop, cut-off test and overflow test kept as the library writes them.
\<close>

subsection \<open>Printing: \<open>%x\<close> of a byte slice\<close>

definition hex_digit :: "nat \<Rightarrow> char" where
  "hex_digit d = (if d < 10 then char_of (48 + d) else char_of (87 + d))"

definition hex_byte :: "byte \<Rightarrow> string" where
  "hex_byte b = [hex_digit (unat b div 16), hex_digit (unat b mod 16)]"

definition Sprintf_x :: "bytes \<Rightarrow> string" where
  "Sprintf_x bs = concat (map hex_byte bs)"

subsection \<open>Parsing: \<open>strconv.ParseUint(s, 16, 64)\<close>\<close>

text \<open>\<open>lower(c) = c | ('x' - 'X')\<close> folds an ASCII letter to lower case.\<close>

definition lower :: "nat \<Rightarrow> nat" where
  "lower c = c OR 32"

text \<open>The digit switch of the loop: a decimal digit, or a letter \<open>a\<close>..\<open>z\<close> in either
  case as 10..35; any other byte is a syntax error (\<open>None\<close>).\<close>

definition digit_val :: "char \<Rightarrow> nat option" where
  "digit_val ch =
     (let c = of_char ch in
      if 48 \<le> c \<and> c \<le> 57 then Some (c - 48)
      else if 97 \<le> lower c \<and> lower c \<le> 122 then Some (lower c - 97 + 10)
      else None)"

text \<open>\<open>cutoff = maxUint64/16 + 1\<close> and \<open>maxVal = 1<<64 - 1\<close>.\<close>

definition cutoff16 :: u64 where
  "cutoff16 = (- 1) div 16 + 1"

definition maxVal64 :: u64 where
  "maxVal64 = - 1"

fun parse_uint16_loop :: "u64 \<Rightarrow> string \<Rightarrow> error + u64" where
  "parse_uint16_loop n [] = Inr n"
| "parse_uint16_loop n (c # cs) =
     (case digit_val c of
        None \<Rightarrow> Inl ErrSyntax
      | Some d \<Rightarrow>
          if 16 \<le> d then Inl ErrSyntax
          else if cutoff16 \<le> n then Inl ErrRange
          else
            (let n = n * 16; n1 = n + of_nat d in
             if n1 < n \<or> maxVal64 < n1 then Inl ErrRange
             else parse_uint16_loop n1 cs))"

definition ParseUint_16_64 :: "string \<Rightarrow> error + u64" where
  "ParseUint_16_64 s = (if s = [] then Inl ErrSyntax else parse_uint16_loop 0 s)"

subsection \<open>Big-endian value of a byte string\<close>

definition be_acc :: "nat \<Rightarrow> bytes \<Rightarrow> nat" where
  "be_acc acc bs = foldl (\<lambda>a b. a * 256 + unat b) acc bs"

abbreviation be_nat :: "bytes \<Rightarrow> nat" where
  "be_nat bs \<equiv> be_acc 0 bs"

subsection \<open>Printing then parsing gives the big-endian value\<close>

text \<open>The digits that \<open>%x\<close> prints, as numbers, and their value read as hexadecimal.\<close>

definition nibbles :: "bytes \<Rightarrow> nat list" where
  "nibbles bs = concat (map (\<lambda>b. [unat b div 16, unat b mod 16]) bs)"

definition hex_val :: "nat \<Rightarrow> nat list \<Rightarrow> nat" where
  "hex_val acc ds = foldl (\<lambda>a d. a * 16 + d) acc ds"

lemma Sprintf_x_nibbles: "Sprintf_x bs = map hex_digit (nibbles bs)"
  by (induction bs) (simp_all add: Sprintf_x_def hex_byte_def nibbles_def)

lemma nibbles_less: "d \<in> set (nibbles bs) \<Longrightarrow> d < 16"
proof -
  have "\<And>b::byte. unat b div 16 < 16"
  proof -
    fix b :: byte
    have "unat b < 16 * 16" using unsigned_less [of b] by simp
    then show "unat b div 16 < 16" by (rule less_mult_imp_div_less)
  qed
  then show "d \<in> set (nibbles bs) \<Longrightarrow> d < 16" by (auto simp: nibbles_def)
qed

lemma length_Sprintf_x [simp]: "length (Sprintf_x bs) = 2 * length bs"
  by (induction bs) (simp_all add: Sprintf_x_def hex_byte_def)

lemma Sprintf_x_eq_Nil_iff [simp]: "Sprintf_x bs = [] \<longleftrightarrow> bs = []"
  using length_Sprintf_x [of bs] by (metis length_0_conv mult_is_0 zero_neq_numeral)

lemma take_Sprintf_x: "take (2 * k) (Sprintf_x bs) = Sprintf_x (take k bs)"
proof (induction bs arbitrary: k)
  case Nil
  then show ?case by (simp add: Sprintf_x_def)
next
  case (Cons b bs)
  then show ?case by (cases k) (simp_all add: Sprintf_x_def hex_byte_def)
qed

lemma be_acc_Nil [simp]: "be_acc acc [] = acc"
  by (simp add: be_acc_def)

lemma be_acc_Cons [simp]: "be_acc acc (b # bs) = be_acc (acc * 256 + unat b) bs"
  by (simp add: be_acc_def)

lemma hex_val_Nil [simp]: "hex_val acc [] = acc"
  by (simp add: hex_val_def)

lemma hex_val_Cons [simp]: "hex_val acc (d # ds) = hex_val (acc * 16 + d) ds"
  by (simp add: hex_val_def)

lemma hex_val_nibbles: "hex_val acc (nibbles bs) = be_acc acc bs"
proof (induction bs arbitrary: acc)
  case Nil
  then show ?case by (simp add: nibbles_def)
next
  case (Cons b bs)
  have eq: "(acc * 16 + unat b div 16) * 16 + unat b mod 16 = acc * 256 + unat b" by simp
  have "hex_val acc (nibbles (b # bs))
          = hex_val ((acc * 16 + unat b div 16) * 16 + unat b mod 16) (nibbles bs)"
    by (simp only: nibbles_def list.map concat.simps append.simps hex_val_Cons)
  also have "\<dots> = be_acc (acc * 256 + unat b) bs" by (simp only: eq Cons.IH)
  finally show ?case by (simp only: be_acc_Cons)
qed

lemma hex_val_ge: "acc * 16 ^ length ds \<le> hex_val acc ds"
proof (induction ds arbitrary: acc)
  case Nil
  then show ?case by simp
next
  case (Cons d ds)
  have "acc * 16 ^ length (d # ds) \<le> (acc * 16 + d) * 16 ^ length ds"
    by (simp add: algebra_simps)
  also have "\<dots> \<le> hex_val (acc * 16 + d) ds" by (rule Cons.IH)
  finally show ?case by simp
qed

lemma be_acc_less: "be_acc acc bs < (acc + 1) * 256 ^ length bs"
proof (induction bs arbitrary: acc)
  case Nil
  then show ?case by simp
next
  case (Cons b bs)
  have "unat b < 256" using unsigned_less [of b] by simp
  then have "acc * 256 + unat b + 1 \<le> (acc + 1) * 256" by simp
  then have le: "(acc * 256 + unat b + 1) * 256 ^ length bs \<le> (acc + 1) * 256 * 256 ^ length bs"
    by (rule mult_right_mono) simp
  have "be_acc (acc * 256 + unat b) bs < (acc * 256 + unat b + 1) * 256 ^ length bs"
    by (rule Cons.IH)
  also note le
  finally show ?case by (simp only: be_acc_Cons length_Cons power_Suc mult.assoc)
qed

text \<open>One step of the digit loop: below the cut-off, \<open>n * 16 + d\<close> does not wrap.\<close>

lemma digit_val_hex_digit:
  assumes "d < 16" shows "digit_val (hex_digit d) = Some d"
proof -
  have "d = 0 \<or> d = 1 \<or> d = 2 \<or> d = 3 \<or> d = 4 \<or> d = 5 \<or> d = 6 \<or> d = 7 \<or> d = 8 \<or> d = 9 \<or>
        d = 10 \<or> d = 11 \<or> d = 12 \<or> d = 13 \<or> d = 14 \<or> d = 15" using assms by arith
  then show ?thesis
    by (elim disjE) (simp_all add: digit_val_def hex_digit_def lower_def)
qed

lemma unat_mul16_add:
  assumes "unat (n::u64) < 2 ^ 60" "d < 16"
  shows "unat (n * 16 + of_nat d) = unat n * 16 + d"
proof -
  have "(2::nat) ^ 64 = 16 * 2 ^ 60" by simp
  then have "unat n * 16 + d < 2 ^ 64" using assms by linarith
  then have "unat (of_nat (unat n * 16 + d) :: u64) = unat n * 16 + d"
    using unat_of_nat [where 'a = 64, of "unat n * 16 + d"] by simp
  moreover have "n * 16 + of_nat d = of_nat (unat n * 16 + d)" by simp
  ultimately show ?thesis by (simp only:)
qed

lemma parse_uint16_loop_digit:
  assumes "d < 16" "unat n < 2 ^ 60"
  shows "parse_uint16_loop n (hex_digit d # cs) = parse_uint16_loop (n * 16 + of_nat d) cs"
proof -
  have u: "unat (n * 16 + of_nat d) = unat n * 16 + d" using assms(2,1) by (rule unat_mul16_add)
  have c: "\<not> cutoff16 \<le> n" using assms(2) by (simp add: cutoff16_def word_le_nat_alt)
  have "unat (n * 16 + of_nat 0) = unat n * 16 + 0" using assms(2) by (rule unat_mul16_add) simp
  then have o: "\<not> n * 16 + of_nat d < n * 16" using u by (simp add: word_less_nat_alt)
  have m: "\<not> maxVal64 < n * 16 + of_nat d" by (simp add: maxVal64_def not_less)
  show ?thesis using assms(1) c o m by (simp add: digit_val_hex_digit Let_def)
qed

lemma parse_uint16_loop_cutoff:
  assumes "d < 16" "2 ^ 60 \<le> unat n"
  shows "parse_uint16_loop n (hex_digit d # cs) = Inl ErrRange"
proof -
  have "cutoff16 \<le> n" using assms(2) by (simp add: cutoff16_def word_le_nat_alt)
  then show ?thesis using assms(1) by (simp add: digit_val_hex_digit)
qed

text \<open>The digit loop on printed digits: the value, or \<open>ErrRange\<close> when it does not fit
  in 64 bits. The early cut-off test and the final value agree, because a prefix above the
  cut-off already makes the whole number too large.\<close>

lemma parse_uint16_loop_digits:
  "\<forall>d \<in> set ds. d < 16 \<Longrightarrow>
   parse_uint16_loop n (map hex_digit ds) =
     (if hex_val (unat n) ds < 2 ^ 64 then Inr (word_of_nat (hex_val (unat n) ds)) else Inl ErrRange)"
proof (induction ds arbitrary: n)
  case Nil
  have "unat n < 2 ^ 64" using unsigned_less [of n] by simp
  then show ?case by simp
next
  case (Cons d ds)
  then have d: "d < 16" and ds: "\<forall>d \<in> set ds. d < 16" by simp_all
  show ?case
  proof (cases "unat n < 2 ^ 60")
    case True
    then have u: "unat (n * 16 + of_nat d) = unat n * 16 + d" using d by (rule unat_mul16_add)
    have "parse_uint16_loop n (map hex_digit (d # ds)) = parse_uint16_loop (n * 16 + of_nat d) (map hex_digit ds)"
      by (simp only: list.map) (rule parse_uint16_loop_digit [OF d True])
    then show ?thesis using Cons.IH [OF ds, of "n * 16 + of_nat d"] u by simp
  next
    case False
    have "(2::nat) ^ 64 \<le> unat n * 16" using False by simp
    also have "\<dots> \<le> unat n * 16 + d" by (rule le_add1)
    also have "\<dots> \<le> (unat n * 16 + d) * 16 ^ length ds" by simp
    also have "\<dots> \<le> hex_val (unat n * 16 + d) ds" by (rule hex_val_ge)
    finally have "\<not> hex_val (unat n) (d # ds) < 2 ^ 64" by simp
    moreover have "parse_uint16_loop n (map hex_digit (d # ds)) = Inl ErrRange"
      using False by (simp only: list.map) (rule parse_uint16_loop_cutoff [OF d], simp)
    ultimately show ?thesis by simp
  qed
qed

lemma parse_uint16_loop_Sprintf_x:
  "parse_uint16_loop n (Sprintf_x bs) =
     (if be_acc (unat n) bs < 2 ^ 64 then Inr (word_of_nat (be_acc (unat n) bs)) else Inl ErrRange)"
  using parse_uint16_loop_digits [of "nibbles bs" n] nibbles_less
  by (simp add: Sprintf_x_nibbles hex_val_nibbles)

lemma ParseUint_Sprintf_x_short:
  assumes "bs \<noteq> []" "length bs \<le> 8"
  shows "ParseUint_16_64 (Sprintf_x bs) = Inr (word_of_nat (be_nat bs))"
proof -
  have "(256::nat) ^ length bs \<le> 256 ^ 8" using assms(2) by (rule power_increasing) simp
  then have "be_nat bs < 2 ^ 64" using be_acc_less [of 0 bs] by simp
  then show ?thesis using assms(1) by (simp add: ParseUint_16_64_def parse_uint16_loop_Sprintf_x)
qed

text \<open>C9: Printing a non-empty byte string with \<open>%x\<close> and parsing
  it back with \<open>strconv.ParseUint(_, 16, 64)\<close> gives the big-endian value of the bytes
  when it fits in 64 bits, and \<open>ErrRange\<close> otherwise; the parser never reports a syntax
  error on printed hex.\<close>

theorem ParseUint_Sprintf_x:
  assumes "bs \<noteq> []"
  shows "ParseUint_16_64 (Sprintf_x bs) =
           (if be_nat bs < 2 ^ 64 then Inr (word_of_nat (be_nat bs)) else Inl ErrRange)"
  using assms by (simp add: ParseUint_16_64_def parse_uint16_loop_Sprintf_x)

theorem ParseUint_Sprintf_x_witness:
  "ParseUint_16_64 (Sprintf_x [0x9f, 0x86, 0xd0, 0x81, 0x88, 0x4c, 0x7d, 0x65]) = Inr 11495104353665842533
   \<and> ParseUint_16_64 (Sprintf_x [1, 0, 0, 0, 0, 0, 0, 0, 0]) = Inl ErrRange"
  using ParseUint_Sprintf_x [of "[0x9f, 0x86, 0xd0, 0x81, 0x88, 0x4c, 0x7d, 0x65]"]
    ParseUint_Sprintf_x [of "[1, 0, 0, 0, 0, 0, 0, 0, 0]"]
  by (simp add: be_acc_def)

end
