(* ===== verification/Hashing.thy ===== *)
theory Hashing
  imports Hex_Codec
begin

text \<open>
  The position deriver of \<open>bloom.go\<close>: \<open>hash\<close> turns a buffer into one position of the
  bit array, and \<open>bitpositions\<close> calls it \<open>hashqty\<close> times on the element followed by
  one index byte. The digest, \<open>crypto/sha256\<close> in the source, is a parameter: a
  \<open>hasher\<close> says whether \<open>h.Write(b)\<close> returns an error and which bytes
  \<open>h.Sum(nil)\<close> returns after \<open>b\<close> was written. SHA-256 never fails and always
  returns 32 bytes; the lemmas below assume only what they need of the hasher.
\<close>

record hasher =
  write_fails :: "bytes \<Rightarrow> bool"
  digest :: "bytes \<Rightarrow> bytes"

text \<open>
  \<open>hash(b, bitlen)\<close>: write \<open>b\<close>, print the digest in hexadecimal, parse its first 16
  characters as a \<open>uint64\<close> and reduce it modulo \<open>bitlen\<close>. Go's \<open>return 0, err\<close>
  is \<open>Inr (0, Some err)\<close>; slicing a digest shorter than 16 characters and
  \<open>i % bitlen\<close> with \<open>bitlen = 0\<close> are panics (\<open>Inl\<close>).
\<close>

definition hash :: "hasher \<Rightarrow> bytes \<Rightarrow> u64 \<Rightarrow> panic + (u64 \<times> error option)" where
  "hash h b bitlen =
     (if write_fails h b then Inr (0, Some ErrWrite)
      else
        (let hexdigest = Sprintf_x (digest h b) in
         if length hexdigest < 16 then Inl SliceBoundsOutOfRange
         else
           (case ParseUint_16_64 (take 16 hexdigest) of
              Inl err \<Rightarrow> Inr (0, Some err)
            | Inr i \<Rightarrow> if bitlen = 0 then Inl IntegerDivideByZero else Inr (i mod bitlen, None))))"

text \<open>
  The loop of \<open>bitpositions\<close>: \<open>i\<close> is the \<open>byte\<close> counter, \<open>b\<close> the buffer
  \<open>element ++ [i]\<close> whose last byte the loop overwrites, \<open>pos\<close> the slice of
  \<open>hashqty\<close> positions filled in place. An error from \<open>hash\<close> breaks the loop and is
  returned with the slice as it is. Both slice writes are bounds-checked as Go checks
  them: \<open>b[len(element)]\<close> before the call, \<open>pos[i]\<close> after \<open>hash\<close> returns (the
  right-hand side of \<open>pos[i], err = hash(b, bitlen)\<close> is evaluated first); an index past
  the end panics with \<open>IndexOutOfRange\<close>.
\<close>

function bitpositions_loop ::
  "hasher \<Rightarrow> bytes \<Rightarrow> byte \<Rightarrow> u64 \<Rightarrow> byte \<Rightarrow> bytes \<Rightarrow> u64 list \<Rightarrow> panic + (u64 list \<times> error option)"
where
  "bitpositions_loop h element hashqty bitlen i b pos =
     (if i < hashqty then
        (if length b \<le> length element then Inl IndexOutOfRange
         else
        (let b = b[length element := i] in
         case hash h b bitlen of
           Inl pn \<Rightarrow> Inl pn
         | Inr (v, err) \<Rightarrow>
             if length pos \<le> unat i then Inl IndexOutOfRange
             else
             (let pos = pos[unat i := v] in
              case err of
                Some e \<Rightarrow> Inr (pos, Some e)
              | None \<Rightarrow> bitpositions_loop h element hashqty bitlen (i + 1) b pos)))
      else Inr (pos, None))"
  by pat_completeness auto

termination
  by (relation "measure (\<lambda>(h, element, hashqty, bitlen, i, b, pos). unat hashqty - unat i)")
     (auto simp: unat_succ_less word_less_nat_alt)

declare bitpositions_loop.simps [simp del]

definition bitpositions :: "hasher \<Rightarrow> bytes \<Rightarrow> byte \<Rightarrow> u64 \<Rightarrow> panic + (u64 list \<times> error option)" where
  "bitpositions h element hashqty bitlen =
     bitpositions_loop h element hashqty bitlen 0 (element @ [0]) (replicate (unat hashqty) 0)"

text \<open>
  The specification of the position deriver: position \<open>i\<close> is the first eight digest
  bytes of \<open>element ++ [i]\<close>, read big-endian, modulo \<open>bitlen\<close>.
\<close>

definition hash_ok :: "hasher \<Rightarrow> bytes \<Rightarrow> bool" where
  "hash_ok h b \<longleftrightarrow> \<not> write_fails h b \<and> 8 \<le> length (digest h b)"

definition hash_pos :: "hasher \<Rightarrow> bytes \<Rightarrow> u64 \<Rightarrow> u64" where
  "hash_pos h b bitlen = word_of_nat (be_nat (take 8 (digest h b))) mod bitlen"

definition positions_spec :: "hasher \<Rightarrow> bytes \<Rightarrow> byte \<Rightarrow> u64 \<Rightarrow> u64 list" where
  "positions_spec h element hashqty bitlen =
     map (\<lambda>i. hash_pos h (element @ [word_of_nat i]) bitlen) [0..<unat hashqty]"


text \<open>Hashers for concrete runs: the digest of a buffer is its last byte plus one,
  repeated eight times, so positions can be computed by the simplifier. The first never
  fails; the second fails to write any buffer whose index byte is 1.\<close>

definition repeat_last_hasher :: hasher where
  "repeat_last_hasher = \<lparr>write_fails = (\<lambda>_. False), digest = (\<lambda>b. let y = last b + 1 in [y, y, y, y, y, y, y, y])\<rparr>"

definition fail_at_one_hasher :: hasher where
  "fail_at_one_hasher = \<lparr>write_fails = (\<lambda>b. last b = 1), digest = (\<lambda>b. let y = last b + 1 in [y, y, y, y, y, y, y, y])\<rparr>"

subsection \<open>One hash\<close>

lemma hash_when_ok:
  assumes "hash_ok h b" "bitlen \<noteq> 0"
  shows "hash h b bitlen = Inr (hash_pos h b bitlen, None)"
proof -
  have ne: "take 8 (digest h b) \<noteq> []" and len: "length (take 8 (digest h b)) \<le> 8"
    using assms(1) by (auto simp: hash_ok_def)
  have "take 16 (Sprintf_x (digest h b)) = Sprintf_x (take 8 (digest h b))"
    using take_Sprintf_x [of 8 "digest h b"] by simp
  moreover have "ParseUint_16_64 (Sprintf_x (take 8 (digest h b)))
                   = Inr (word_of_nat (be_nat (take 8 (digest h b))))"
    using ne len by (rule ParseUint_Sprintf_x_short)
  ultimately show ?thesis using assms by (auto simp: hash_def hash_ok_def hash_pos_def Let_def)
qed

subsection \<open>The loop against its specification\<close>

lemma length_positions_spec [simp]: "length (positions_spec h element q bitlen) = unat q"
  by (simp add: positions_spec_def)

lemma nth_positions_spec:
  "j < unat q \<Longrightarrow> positions_spec h element q bitlen ! j = hash_pos h (element @ [word_of_nat j]) bitlen"
  by (simp add: positions_spec_def)

lemma bitpositions_loop_ok:
  "bitlen \<noteq> 0 \<Longrightarrow> (\<forall>k<unat q. hash_ok h (element @ [word_of_nat k])) \<Longrightarrow>
   b = element @ [x] \<Longrightarrow> length pos = unat q \<Longrightarrow>
   (\<forall>j<unat i. pos ! j = positions_spec h element q bitlen ! j) \<Longrightarrow>
   bitpositions_loop h element q bitlen i b pos = Inr (positions_spec h element q bitlen, None)"
proof (induction h element q bitlen i b pos arbitrary: x rule: bitpositions_loop.induct)
  case (1 h element q bitlen i b pos)
  let ?spec = "positions_spec h element q bitlen"
  show ?case
  proof (cases "i < q")
    case True
    have ui: "unat i < unat q" using True by (simp add: word_less_nat_alt)
    have b': "b[length element := i] = element @ [i]" using "1.prems"(3) by simp
    have lb: "\<not> length b \<le> length element" and lp: "\<not> length pos \<le> unat i"
      using "1.prems"(3,4) ui by simp_all
    have "hash_ok h (element @ [word_of_nat (unat i)])" using "1.prems"(2) ui by blast
    then have "hash h (element @ [i]) bitlen = Inr (hash_pos h (element @ [i]) bitlen, None)"
      using "1.prems"(1) by (simp add: hash_when_ok)
    then have hv: "hash h (b[length element := i]) bitlen = Inr (?spec ! unat i, None)"
      using ui b' by (simp add: nth_positions_spec)
    define pos' where "pos' = pos[unat i := ?spec ! unat i]"
    have "bitpositions_loop h element q bitlen (i + 1) (b[length element := i]) pos' = Inr (?spec, None)"
    proof (rule "1.IH" [OF True lb refl hv refl lp pos'_def refl])
      show "bitlen \<noteq> 0" by (rule "1.prems"(1))
      show "\<forall>k<unat q. hash_ok h (element @ [word_of_nat k])" by (rule "1.prems"(2))
      show "b[length element := i] = element @ [i]" by (rule b')
      show "length pos' = unat q" using "1.prems"(4) by (simp add: pos'_def)
      show "\<forall>j<unat (i + 1). pos' ! j = ?spec ! j"
        using "1.prems"(4,5) ui by (auto simp: pos'_def unat_succ_less [OF True] nth_list_update less_Suc_eq)
    qed
    then show ?thesis using True lb lp hv by (simp add: bitpositions_loop.simps [of h element q bitlen i b pos] pos'_def)
  next
    case False
    then have "unat q \<le> unat i" by (simp add: word_less_nat_alt not_less)
    then have "pos = ?spec" using "1.prems"(4,5) by (intro nth_equalityI) auto
    moreover have "bitpositions_loop h element q bitlen i b pos = Inr (pos, None)"
      using False by (simp add: bitpositions_loop.simps [of h element q bitlen i b pos])
    ultimately show ?thesis by simp
  qed
qed


lemma hash_None_less:
  "hash h b bitlen = Inr (v, None) \<Longrightarrow> v < bitlen"
  by (auto simp: hash_def Let_def word_neq_0_conv intro!: word_mod_less_divisor split: if_splits sum.splits)

text \<open>One round of the loop that did not panic: both writes were in range, \<open>hash\<close>
  returned, and either its error ended the loop or the loop went on with \<open>i + 1\<close>.\<close>

lemma bitpositions_loop_InrE:
  assumes "bitpositions_loop h element q bitlen i b pos = Inr r" "i < q"
  obtains v err where "\<not> length b \<le> length element" "hash h (b[length element := i]) bitlen = Inr (v, err)"
    "\<not> length pos \<le> unat i"
    "case err of Some e \<Rightarrow> r = (pos[unat i := v], Some e)
     | None \<Rightarrow> bitpositions_loop h element q bitlen (i + 1) (b[length element := i]) (pos[unat i := v]) = Inr r"
  using assms
  by (auto simp: bitpositions_loop.simps [of h element q bitlen i b pos] Let_def
           split: if_splits sum.splits option.splits)

lemma bitpositions_loop_in_range:
  "bitpositions_loop h element q bitlen i b pos = Inr (pos', None) \<Longrightarrow>
   length pos = unat q \<Longrightarrow> (\<forall>j<unat i. pos ! j < bitlen) \<Longrightarrow>
   length pos' = unat q \<and> (\<forall>p\<in>set pos'. p < bitlen)"
proof (induction h element q bitlen i b pos rule: bitpositions_loop.induct)
  case (1 h element q bitlen i b pos)
  show ?case
  proof (cases "i < q")
    case True
    have ui: "unat i < unat q" using True by (simp add: word_less_nat_alt)
    obtain v err where lb: "\<not> length b \<le> length element" and r: "hash h (b[length element := i]) bitlen = Inr (v, err)"
      and lp: "\<not> length pos \<le> unat i"
      and c: "case err of Some e \<Rightarrow> (pos', None) = (pos[unat i := v], Some e)
              | None \<Rightarrow> bitpositions_loop h element q bitlen (i + 1) (b[length element := i]) (pos[unat i := v]) = Inr (pos', None)"
      by (rule bitpositions_loop_InrE [OF "1.prems"(1) True])
    have err: "err = None" and rec:
      "bitpositions_loop h element q bitlen (i + 1) (b[length element := i]) (pos[unat i := v]) = Inr (pos', None)"
      using c by (cases err; simp)+
    have "v < bitlen" using r err by (simp add: hash_None_less)
    then have "\<forall>j<unat (i + 1). pos[unat i := v] ! j < bitlen"
      using "1.prems"(2,3) ui by (auto simp: unat_succ_less [OF True] nth_list_update less_Suc_eq)
    moreover have "length (pos[unat i := v]) = unat q" using "1.prems"(2) by simp
    ultimately show ?thesis
      using "1.IH" [OF True lb refl r refl lp refl err rec] by blast
  next
    case False
    then have "pos' = pos" using "1.prems"(1) by (simp add: bitpositions_loop.simps [of h element q bitlen i b pos])
    moreover have "unat q \<le> unat i" using False by (simp add: word_less_nat_alt not_less)
    ultimately show ?thesis using "1.prems"(2,3) by (auto simp: in_set_conv_nth)
  qed
qed

lemma bitpositions_in_range:
  "bitpositions h element q bitlen = Inr (pos, None) \<Longrightarrow> length pos = unat q \<and> (\<forall>p\<in>set pos. p < bitlen)"
  unfolding bitpositions_def by (erule bitpositions_loop_in_range) simp_all


lemma hash_write_fails:
  "write_fails h b \<Longrightarrow> hash h b bitlen = Inr (0, Some ErrWrite)"
  by (simp add: hash_def)

lemma hash_returns:
  assumes "8 \<le> length (digest h b)" "bitlen \<noteq> 0"
  shows "hash h b bitlen = Inr (0, Some ErrWrite) \<or> hash h b bitlen = Inr (hash_pos h b bitlen, None)"
proof (cases "write_fails h b")
  case True
  then show ?thesis by (simp add: hash_write_fails)
next
  case False
  then have "hash_ok h b" using assms(1) by (simp add: hash_ok_def)
  then show ?thesis using assms(2) by (simp add: hash_when_ok)
qed

lemma prefix_update_next:
  assumes "i < n" "length xs = n"
  shows "(take i xs @ replicate (n - i) 0)[i := xs ! i] = take (Suc i) xs @ replicate (n - Suc i) 0"
proof -
  have "n - i = Suc (n - Suc i)" using assms(1) by arith
  then show ?thesis using assms by (simp add: list_update_append take_Suc_conv_app_nth)
qed

lemma prefix_update_zero:
  assumes "i < n" "length xs = n"
  shows "(take i xs @ replicate (n - i) 0)[i := 0] = take i xs @ replicate (n - i) 0"
  using assms by (cases "n - i") (simp_all add: list_update_append)

lemma bitpositions_loop_write_error:
  "bitlen \<noteq> 0 \<Longrightarrow> k < unat q \<Longrightarrow> (\<forall>j<k. hash_ok h (element @ [word_of_nat j])) \<Longrightarrow>
   write_fails h (element @ [word_of_nat k]) \<Longrightarrow> b = element @ [x] \<Longrightarrow> unat i \<le> k \<Longrightarrow>
   pos = take (unat i) (positions_spec h element q bitlen) @ replicate (unat q - unat i) 0 \<Longrightarrow>
   bitpositions_loop h element q bitlen i b pos =
     Inr (take k (positions_spec h element q bitlen) @ replicate (unat q - k) 0, Some ErrWrite)"
proof (induction h element q bitlen i b pos arbitrary: x rule: bitpositions_loop.induct)
  case (1 h element q bitlen i b pos)
  let ?spec = "positions_spec h element q bitlen"
  have ui: "unat i < unat q" using "1.prems"(2,6) by simp
  then have True: "i < q" by (simp add: word_less_nat_alt)
  have b': "b[length element := i] = element @ [i]" using "1.prems"(5) by simp
  have lb: "\<not> length b \<le> length element" and lp: "\<not> length pos \<le> unat i"
    using "1.prems"(5,7) ui by simp_all
  show ?case
  proof (cases "unat i = k")
    case True
    then have "write_fails h (element @ [word_of_nat (unat i)])" using "1.prems"(4) by simp
    then have "write_fails h (element @ [i])" by simp
    then have hv: "hash h (b[length element := i]) bitlen = Inr (0, Some ErrWrite)"
      using b' by (simp add: hash_write_fails)
    have "bitpositions_loop h element q bitlen i b pos = Inr (pos[unat i := 0], Some ErrWrite)"
      using \<open>i < q\<close> lb lp hv by (simp add: bitpositions_loop.simps [of h element q bitlen i b pos])
    moreover have "pos[unat i := 0] = pos" using "1.prems"(7) ui by (simp add: prefix_update_zero)
    ultimately show ?thesis using True "1.prems"(7) by simp
  next
    case False
    then have lt: "unat i < k" using "1.prems"(6) by simp
    have "hash_ok h (element @ [word_of_nat (unat i)])" using "1.prems"(3) lt by blast
    then have hv: "hash h (b[length element := i]) bitlen = Inr (?spec ! unat i, None)"
      using "1.prems"(1) ui b' by (simp add: hash_when_ok nth_positions_spec)
    define pos' where "pos' = pos[unat i := ?spec ! unat i]"
    have pos': "pos' = take (unat (i + 1)) ?spec @ replicate (unat q - unat (i + 1)) 0"
      using "1.prems"(7) ui by (simp add: pos'_def unat_succ_less [OF \<open>i < q\<close>] prefix_update_next)
    have "bitpositions_loop h element q bitlen (i + 1) (b[length element := i]) pos'
            = Inr (take k ?spec @ replicate (unat q - k) 0, Some ErrWrite)"
      using "1.prems"(1-4) b' lt pos'
      by (intro "1.IH" [OF \<open>i < q\<close> lb refl hv refl lp pos'_def refl]) (simp_all add: unat_succ_less [OF \<open>i < q\<close>])
    then show ?thesis using \<open>i < q\<close> lb lp hv
      by (simp add: bitpositions_loop.simps [of h element q bitlen i b pos] pos'_def)
  qed
qed

lemma bitpositions_loop_returns:
  "bitlen \<noteq> 0 \<Longrightarrow> (\<forall>k<unat q. 8 \<le> length (digest h (element @ [word_of_nat k]))) \<Longrightarrow>
   b = element @ [x] \<Longrightarrow> length pos = unat q \<Longrightarrow> \<exists>r. bitpositions_loop h element q bitlen i b pos = Inr r"
proof (induction h element q bitlen i b pos arbitrary: x rule: bitpositions_loop.induct)
  case (1 h element q bitlen i b pos)
  show ?case
  proof (cases "i < q")
    case True
    have ui: "unat i < unat q" using True by (simp add: word_less_nat_alt)
    have b': "b[length element := i] = element @ [i]" using "1.prems"(3) by simp
    have lb: "\<not> length b \<le> length element" and lp: "\<not> length pos \<le> unat i"
      using "1.prems"(3,4) ui by simp_all
    have "8 \<le> length (digest h (element @ [word_of_nat (unat i)]))" using "1.prems"(2) ui by blast
    then have "hash h (element @ [i]) bitlen = Inr (0, Some ErrWrite) \<or>
               hash h (element @ [i]) bitlen = Inr (hash_pos h (element @ [i]) bitlen, None)"
      using "1.prems"(1) by (intro hash_returns) simp_all
    then show ?thesis
    proof
      assume "hash h (element @ [i]) bitlen = Inr (0, Some ErrWrite)"
      then show ?thesis using True lb lp b' by (simp add: bitpositions_loop.simps [of h element q bitlen i b pos])
    next
      assume hv: "hash h (element @ [i]) bitlen = Inr (hash_pos h (element @ [i]) bitlen, None)"
      then have hv': "hash h (b[length element := i]) bitlen = Inr (hash_pos h (element @ [i]) bitlen, None)"
        using b' by simp
      obtain r where "bitpositions_loop h element q bitlen (i + 1) (b[length element := i])
                        (pos[unat i := hash_pos h (element @ [i]) bitlen]) = Inr r"
        using "1.IH" [OF True lb refl hv' refl lp refl refl] "1.prems"(1,2,4) b' by auto
      then show ?thesis using True lb lp hv' by (simp add: bitpositions_loop.simps [of h element q bitlen i b pos])
    qed
  next
    case False
    then show ?thesis by (simp add: bitpositions_loop.simps [of h element q bitlen i b pos])
  qed
qed


lemma bitpositions_loop_length:
  "bitpositions_loop h element q bitlen i b pos = Inr (pos', err) \<Longrightarrow> length pos' = length pos"
proof (induction h element q bitlen i b pos rule: bitpositions_loop.induct)
  case (1 h element q bitlen i b pos)
  show ?case
  proof (cases "i < q")
    case True
    obtain v e where lb: "\<not> length b \<le> length element" and r: "hash h (b[length element := i]) bitlen = Inr (v, e)"
      and lp: "\<not> length pos \<le> unat i"
      and c: "case e of Some e' \<Rightarrow> (pos', err) = (pos[unat i := v], Some e')
              | None \<Rightarrow> bitpositions_loop h element q bitlen (i + 1) (b[length element := i]) (pos[unat i := v]) = Inr (pos', err)"
      by (rule bitpositions_loop_InrE [OF "1.prems" True])
    show ?thesis
    proof (cases e)
      case None
      then show ?thesis using c "1.IH" [OF True lb refl r refl lp refl None] by simp
    next
      case (Some e')
      then show ?thesis using c by simp
    qed
  next
    case False
    then show ?thesis using "1.prems" by (simp add: bitpositions_loop.simps [of h element q bitlen i b pos])
  qed
qed

subsection \<open>Properties of the position deriver\<close>

text \<open>C10: \<open>hash\<close> on every branch: a failed \<open>Write\<close> returns \<open>(0, ErrWrite)\<close>;
  a digest shorter than eight bytes panics when it is sliced; otherwise \<open>ParseUint\<close> never
  fails on the printed digest, \<open>bitlen = 0\<close> panics on the division, and the position is
  the first eight digest bytes read big-endian, modulo \<open>bitlen\<close>.\<close>

theorem hash_cases:
  "hash h b bitlen =
     (if write_fails h b then Inr (0, Some ErrWrite)
      else if length (digest h b) < 8 then Inl SliceBoundsOutOfRange
      else if bitlen = 0 then Inl IntegerDivideByZero
      else Inr (word_of_nat (be_nat (take 8 (digest h b))) mod bitlen, None))"
proof (cases "\<not> write_fails h b \<and> 8 \<le> length (digest h b)")
  case True
  then have ne: "take 8 (digest h b) \<noteq> []" and len: "length (take 8 (digest h b)) \<le> 8" by auto
  have "take 16 (Sprintf_x (digest h b)) = Sprintf_x (take 8 (digest h b))"
    using take_Sprintf_x [of 8 "digest h b"] by simp
  moreover have "ParseUint_16_64 (Sprintf_x (take 8 (digest h b)))
                   = Inr (word_of_nat (be_nat (take 8 (digest h b))))"
    using ne len by (rule ParseUint_Sprintf_x_short)
  ultimately show ?thesis using True by (simp add: hash_def Let_def)
next
  case False
  then show ?thesis by (auto simp: hash_def Let_def)
qed

text \<open>C7: When every one of the \<open>hashqty\<close> hashes succeeds and
  \<open>bitlen\<close> is not zero, the loop of \<open>bitpositions\<close> computes exactly the specified
  positions, in index order, and returns no error.\<close>

theorem bitpositions_eq_spec:
  assumes "bitlen \<noteq> 0" and "\<forall>k<unat hashqty. hash_ok h (element @ [word_of_nat k])"
  shows "bitpositions h element hashqty bitlen = Inr (positions_spec h element hashqty bitlen, None)"
  unfolding bitpositions_def using assms by (rule bitpositions_loop_ok) simp_all

theorem bitpositions_eq_spec_witness:
  "bitpositions repeat_last_hasher [7, 9] 3 10 = Inr ([3, 6, 9], None)"
proof -
  have ok: "\<forall>k<unat (3::byte). hash_ok repeat_last_hasher ([7, 9] @ [word_of_nat k])"
    by (simp add: hash_ok_def repeat_last_hasher_def Let_def)
  have "positions_spec repeat_last_hasher [7, 9] 3 10 = [3, 6, 9]"
    by (simp add: positions_spec_def hash_pos_def repeat_last_hasher_def upt_rec be_acc_def Let_def)
  then show ?thesis using bitpositions_eq_spec [of 10 3 repeat_last_hasher "[7, 9]", OF _ ok] ok by simp
qed

text \<open>C13: \<open>bitpositions\<close> never panics when \<open>bitlen\<close> is not zero
  and every digest has at least eight bytes, whatever \<open>Write\<close> does: the writes
  \<open>b[len(element)] = i\<close> and \<open>pos[i] = ...\<close> stay in range for every \<open>i < hashqty\<close>,
  and the call returns a slice of exactly \<open>hashqty\<close> positions, with or without an
  error.\<close>

theorem bitpositions_returns:
  assumes "bitlen \<noteq> 0" and "\<forall>k<unat hashqty. 8 \<le> length (digest h (element @ [word_of_nat k]))"
  shows "\<exists>pos err. bitpositions h element hashqty bitlen = Inr (pos, err) \<and> length pos = unat hashqty"
proof -
  obtain r where r: "bitpositions h element hashqty bitlen = Inr r"
    using bitpositions_loop_returns [OF assms, of "element @ [0]" 0 "replicate (unat hashqty) 0" 0]
    by (auto simp: bitpositions_def)
  obtain pos err where "r = (pos, err)" by (cases r)
  moreover have "length pos = unat hashqty"
    using r \<open>r = (pos, err)\<close> bitpositions_loop_length by (auto simp: bitpositions_def)
  ultimately show ?thesis using r by blast
qed

text \<open>C21: When \<open>Write\<close> fails first at index \<open>k\<close>, the loop
  stops there and returns \<open>ErrWrite\<close> with a slice of full length \<open>hashqty\<close>: the
  \<open>k\<close> positions computed before the failure, then zeros (the failing entry gets the 0
  that \<open>hash\<close> returns with its error).\<close>

theorem bitpositions_write_error:
  assumes "bitlen \<noteq> 0" and "k < unat hashqty"
    and "\<forall>j<k. hash_ok h (element @ [word_of_nat j])" and "write_fails h (element @ [word_of_nat k])"
  shows "bitpositions h element hashqty bitlen =
           Inr (take k (positions_spec h element hashqty bitlen) @ replicate (unat hashqty - k) 0, Some ErrWrite)"
  unfolding bitpositions_def using assms by (rule bitpositions_loop_write_error) simp_all

theorem bitpositions_write_error_witness:
  "write_fails fail_at_one_hasher [7, 9, 1]
   \<and> bitpositions fail_at_one_hasher [7, 9] 3 10 = Inr ([3, 0, 0], Some ErrWrite)"
proof -
  have ok: "\<forall>j<1. hash_ok fail_at_one_hasher ([7, 9] @ [word_of_nat j])"
    by (simp add: hash_ok_def fail_at_one_hasher_def Let_def)
  have wf: "write_fails fail_at_one_hasher ([7, 9] @ [word_of_nat 1])"
    by (simp add: fail_at_one_hasher_def)
  have r2: "replicate 2 (0::u64) = [0, 0]" by (simp add: numeral_2_eq_2)
  have "take 1 (positions_spec fail_at_one_hasher [7, 9] 3 10) = [3]"
    by (simp add: positions_spec_def hash_pos_def fail_at_one_hasher_def upt_rec be_acc_def Let_def)
  then show ?thesis
    using bitpositions_write_error [of 10 1 3 fail_at_one_hasher "[7, 9]", OF _ _ ok wf] ok wf r2 by simp
qed

theorem bitpositions_returns_witness:
  "(\<exists>pos err. bitpositions fail_at_one_hasher [7, 9] 3 10 = Inr (pos, err) \<and> length pos = unat (3::byte))"
proof -
  have "\<forall>k<unat (3::byte). 8 \<le> length (digest fail_at_one_hasher ([7, 9] @ [word_of_nat k]))"
    by (simp add: fail_at_one_hasher_def Let_def)
  then show ?thesis using bitpositions_returns [of 10 3 fail_at_one_hasher "[7, 9]"] by simp
qed

end
