(* ===== verification/Bit_Location.thy ===== *)
theory Bit_Location
  imports Bloom_Prelude
begin

text \<open>
  Bit addressing, \<open>bitlocation\<close> of \<open>bloom.go\<close>: a position of the logical bit
  array is split into the index of its bucket in \<open>bitstore\<close> and the offset of the bit
  inside that bucket. The bucket width is a \<open>byte\<close>; 0 stands for 8. The Go
  arithmetic is on \<open>uint64\<close> and the index is returned as a Go \<open>int\<close> (64 bits on
  the platforms the package targets), read here with \<open>sint\<close>.
\<close>

definition bitlocation :: "u64 \<Rightarrow> byte \<Rightarrow> int \<times> byte" where
  "bitlocation p bitsize =
     (let bitsize = (if bitsize = 0 then 8 else bitsize);
          index = p div ucast bitsize;
          offset = p - index * ucast bitsize
      in (sint index, ucast offset))"

text \<open>The table of \<open>TestBitlocation\<close>: position, bucket width, wanted index and
  wanted offset.\<close>

definition TestBitlocation_cases :: "(u64 \<times> byte \<times> int \<times> byte) list" where
  "TestBitlocation_cases =
     [(0, 2, 0, 0), (1, 2, 0, 1), (2, 2, 1, 0), (3, 2, 1, 1),
      (41167512252, 2, 20583756126, 0),
      (0, 0, 0, 0), (7, 0, 0, 7), (8, 0, 1, 0),
      (63, 64, 0, 63), (64, 64, 1, 0)]"

definition TestBitlocation :: bool where
  "TestBitlocation =
     list_all (\<lambda>(pos, bitsize, wantIndex, wantOffset). bitlocation pos bitsize = (wantIndex, wantOffset))
       TestBitlocation_cases"

subsection \<open>Index and offset as natural numbers\<close>

text \<open>For a bucket of at least two bits the \<open>uint64\<close> arithmetic never wraps and the
  index is below \<open>2 ^ 63\<close>, so the Go results are the quotient and the remainder.\<close>

lemma bitlocation_unat:
  assumes s: "s = (if bitsize = 0 then 8 else unat bitsize)" and two: "2 \<le> s"
  shows "bitlocation p bitsize = (int (unat p div s), word_of_nat (unat p mod s))"
proof -
  define w :: u64 where "w = ucast (if bitsize = 0 then 8 else bitsize)"
  have uw: "unat w = s" using s by (simp add: w_def)
  have div: "unat (p div w) = unat p div s" using uw by (simp add: unat_div)
  have "unat p div s < 2 ^ 63"
  proof -
    have "unat p < 2 ^ 64" using unsigned_less [of p] by simp
    then have "unat p div s \<le> unat p div 2" using two by (simp add: div_le_mono2)
    also have "\<dots> < 2 ^ 63" using \<open>unat p < 2 ^ 64\<close> by simp
    finally show ?thesis .
  qed
  then have si: "sint (p div w) = int (unat p div s)"
    using div by (simp add: sint_eq_uint_small uint_nat)
  have off: "p - (p div w) * w = p mod w" by (simp add: minus_div_mult_eq_mod)
  have "unat (p mod w) = unat p mod s" using uw by (simp add: unat_mod)
  then have "(ucast (p mod w) :: byte) = word_of_nat (unat p mod s)"
    by (simp add: ucast_u64_byte_nat)
  then show ?thesis using si off by (simp add: bitlocation_def w_def Let_def)
qed

lemma bitlocation_64:
  "bitlocation p 64 = (int (unat p div 64), word_of_nat (unat p mod 64))"
  by (rule bitlocation_unat) simp_all

lemma unat_offset_64 [simp]:
  "unat (word_of_nat (unat (p::u64) mod 64) :: byte) = unat p mod 64"
  by (simp add: unat_of_nat)

subsection \<open>Properties\<close>

text \<open>C8: For every bucket width but 1 (the width 0 meaning 8),
  \<open>bitlocation\<close> splits a position into a non-negative bucket index and an offset below
  the width, and \<open>index * width + offset\<close> gives the position back.\<close>

theorem bitlocation_roundtrip:
  assumes "bitlocation p bitsize = (index, offset)" and "bitsize \<noteq> 1"
  shows "0 \<le> index \<and> nat index * (if bitsize = 0 then 8 else unat bitsize) + unat offset = unat p
         \<and> unat offset < (if bitsize = 0 then 8 else unat bitsize)"
proof -
  define s where "s = (if bitsize = 0 then 8 else unat bitsize)"
  have "s \<noteq> 1" using assms(2) by (auto simp: s_def word_unat_eq_iff)
  moreover have "s \<noteq> 0" by (auto simp: s_def word_unat_eq_iff)
  ultimately have two: "2 \<le> s" by arith
  have lt: "s < 256" using unsigned_less [of bitsize] by (auto simp: s_def)
  from assms(1) bitlocation_unat [OF s_def two]
  have "index = int (unat p div s)" and "offset = word_of_nat (unat p mod s)" by auto
  moreover have "unat p mod s < s" using two by simp
  ultimately show ?thesis using lt by (simp add: s_def [symmetric] unat_of_nat)
qed

theorem bitlocation_roundtrip_witness:
  "bitlocation 130 0 = (16, 2) \<and> (0::byte) \<noteq> 1 \<and> 0 \<le> (16::int)
   \<and> nat 16 * 8 + unat (2::byte) = unat (130::u64) \<and> unat (2::byte) < 8"
proof -
  have loc: "bitlocation 130 0 = (16, 2)" by (simp add: bitlocation_def)
  show ?thesis using bitlocation_roundtrip [OF loc] loc by simp
qed

text \<open>Every row of the table of \<open>TestBitlocation\<close> holds of
  the model: widths 2, 0 (that is 8) and 64, up to the index 20583756126.\<close>

theorem TestBitlocation_passes: "TestBitlocation"
  by (simp add: TestBitlocation_def TestBitlocation_cases_def bitlocation_def)

end
