(* ===== verification/Log_Bounds.thy ===== *)
theory Log_Bounds
  imports Complex_Main
begin

text \<open>
  Rational bounds on \<open>ln 2\<close> and \<open>ln 10\<close>, to about \<open>10 ^ -15\<close>, for evaluating the
  capacity planner at the probabilities of the tests. Both logarithms are written with
  \<open>ln (5/4)\<close> and \<open>ln (128/125)\<close> (\<open>2 = (5/4)^3 * 128/125\<close>,
  \<open>10 = (5/4)^10 * (128/125)^3\<close>), whose series \<open>ln (1 + d)\<close> alternate and converge
  fast; a partial sum with an even number of terms is below the logarithm, one with an odd
  number above (Leibniz).
\<close>

lemma ln_alt_bounds:
  fixes d :: real
  assumes "0 < d" "d < 1"
  shows "(\<Sum>i<2*k. (-1)^i * (d ^ Suc i / real (Suc i))) \<le> ln (1 + d)
         \<and> ln (1 + d) \<le> (\<Sum>i<2*k+1. (-1)^i * (d ^ Suc i / real (Suc i)))"
proof -
  let ?a = "\<lambda>n. d ^ Suc n / real (Suc n)"
  have "(\<lambda>n. d ^ Suc n * inverse (real (Suc n))) \<longlonglongrightarrow> 0 * 0"
    by (intro tendsto_mult LIMSEQ_Suc [OF LIMSEQ_power_zero] LIMSEQ_inverse_real_of_nat) (use assms in simp)
  then have z: "?a \<longlonglongrightarrow> 0" by (simp add: divide_inverse)
  have p: "\<And>n. 0 \<le> ?a n" using assms by simp
  have m: "?a (Suc n) \<le> ?a n" for n
  proof -
    have "d ^ Suc (Suc n) \<le> d ^ Suc n" using assms by (simp add: power_decreasing)
    moreover have "0 \<le> d ^ Suc (Suc n)" using assms by simp
    ultimately show ?thesis by (simp add: frac_le)
  qed
  have ln: "ln (1 + d) = (\<Sum>i. (-1)^i * ?a i)"
    using ln_series [of "1 + d"] assms by (simp add: mult.assoc)
  show ?thesis using summable_Leibniz'(2) [OF z p m, of k] summable_Leibniz'(4) [OF z p m, of k] ln by simp
qed

lemma ln_5_4_bounds: "223143551314209257 / 10 ^ 18 \<le> ln (5 / 4 :: real) \<and> ln (5 / 4 :: real) \<le> 223143551314209876 / 10 ^ 18"
proof -
  have b: "(\<Sum>i<22. (-1)^i * ((1/4::real) ^ Suc i / real (Suc i))) \<le> ln (5 / 4)
           \<and> ln (5 / 4) \<le> (\<Sum>i<23. (-1)^i * ((1/4::real) ^ Suc i / real (Suc i)))"
    using ln_alt_bounds [of "1/4" 11] by simp
  have "223143551314209257 / 10 ^ 18 \<le> (\<Sum>i<22. (-1)^i * ((1/4::real) ^ Suc i / real (Suc i)))"
    by (simp add: eval_nat_numeral)
  moreover have "(\<Sum>i<23. (-1)^i * ((1/4::real) ^ Suc i / real (Suc i))) \<le> 223143551314209876 / 10 ^ 18"
    by (simp add: eval_nat_numeral)
  ultimately show ?thesis using b by linarith
qed

lemma ln_128_125_bounds: "23716526617316041 / 10 ^ 18 \<le> ln (128 / 125 :: real) \<and> ln (128 / 125 :: real) \<le> 23716526617316043 / 10 ^ 18"
proof -
  have b: "(\<Sum>i<10. (-1)^i * ((3/125::real) ^ Suc i / real (Suc i))) \<le> ln (128 / 125)
           \<and> ln (128 / 125) \<le> (\<Sum>i<11. (-1)^i * ((3/125::real) ^ Suc i / real (Suc i)))"
    using ln_alt_bounds [of "3/125" 5] by simp
  have "23716526617316041 / 10 ^ 18 \<le> (\<Sum>i<10. (-1)^i * ((3/125::real) ^ Suc i / real (Suc i)))"
    by (simp add: eval_nat_numeral)
  moreover have "(\<Sum>i<11. (-1)^i * ((3/125::real) ^ Suc i / real (Suc i))) \<le> 23716526617316043 / 10 ^ 18"
    by (simp add: eval_nat_numeral)
  ultimately show ?thesis using b by linarith
qed

lemma ln_2_split: "ln (2::real) = 3 * ln (5 / 4) + ln (128 / 125)"
proof -
  have "(2::real) = (5 / 4) ^ 3 * (128 / 125)" by (simp add: power_divide)
  then have "ln (2::real) = ln ((5 / 4) ^ 3 * (128 / 125))" by (simp only:)
  also have "\<dots> = ln ((5 / 4) ^ 3) + ln (128 / 125)" by (simp only: ln_mult) simp
  also have "ln ((5 / 4 :: real) ^ 3) = 3 * ln (5 / 4)" using ln_realpow [of "5 / 4 :: real" 3] by simp
  finally show ?thesis .
qed

lemma ln_10_split: "ln (10::real) = 10 * ln (5 / 4) + 3 * ln (128 / 125)"
proof -
  have "(10::real) = (5 / 4) ^ 10 * (128 / 125) ^ 3" by (simp add: power_divide)
  then have "ln (10::real) = ln ((5 / 4) ^ 10 * (128 / 125) ^ 3)" by (simp only:)
  also have "\<dots> = ln ((5 / 4) ^ 10) + ln ((128 / 125) ^ 3)" by (simp only: ln_mult) simp
  also have "ln ((5 / 4 :: real) ^ 10) = 10 * ln (5 / 4)" using ln_realpow [of "5 / 4 :: real" 10] by simp
  also have "ln ((128 / 125 :: real) ^ 3) = 3 * ln (128 / 125)" using ln_realpow [of "128 / 125 :: real" 3] by simp
  finally show ?thesis .
qed

lemma ln_2_10_bounds:
  "693147180559943812 / 10 ^ 18 \<le> ln (2::real) \<and> ln (2::real) \<le> 693147180559945671 / 10 ^ 18
   \<and> 2302585092994040693 / 10 ^ 18 \<le> ln (10::real) \<and> ln (10::real) \<le> 2302585092994046889 / 10 ^ 18"
  using ln_5_4_bounds ln_128_125_bounds unfolding ln_2_split ln_10_split by linarith


lemma ln_hundredth: "ln (1 / 100 :: real) = - (real 2 * ln 10)"
proof -
  have "ln (1 / 100 :: real) = - ln (10 ^ 2)" by (simp add: ln_div)
  then show ?thesis using ln_realpow [of "10 :: real" 2] by simp
qed

lemma ln_thousandth: "ln (1 / 1000 :: real) = - (real 3 * ln 10)"
proof -
  have "ln (1 / 1000 :: real) = - ln (10 ^ 3)" by (simp add: ln_div)
  then show ?thesis using ln_realpow [of "10 :: real" 3] by simp
qed

end
