(* ===== verification/Capacity.thy ===== *)
theory Capacity
  imports Complex_Main Bloom_Prelude Log_Bounds
begin

text \<open>
  The capacity planner of \<open>bloom.go\<close>: \<open>optimalBitLen\<close> and \<open>optimalHashQty\<close>. The
  source computes in \<open>float64\<close> with \<open>math.Log\<close> and \<open>math.Ceil\<close>; the model computes
  the same formulas on the reals, exactly, with \<open>ln\<close> and \<open>\<lceil>_\<rceil>\<close>. Rounding of
  \<open>float64\<close> is not modelled: a result on an exact power-of-two boundary could differ by
  one in the source. The conversions \<open>uint64(x)\<close> and \<open>byte(x)\<close> of a float truncate
  towards zero; the Go specification leaves the value implementation-dependent when the
  truncated value does not fit the target type, and the model returns \<open>None\<close> there.
  \<open>math.Log\<close> of a non-positive number is \<open>-Inf\<close> or \<open>NaN\<close>, whose conversion is
  implementation-dependent as well, so both functions return \<open>None\<close> for \<open>prob \<le> 0\<close>.
  The tables of \<open>TestOptimalBitLen\<close> and \<open>TestOptimalHashQty\<close> are evaluated exactly,
  with the bounds of \<open>Log_Bounds\<close>; every exact value there is at least \<open>3 * 10 ^ -12\<close>
  (relative) away from the next integer, far more than the rounding error of \<open>float64\<close>,
  so the exact and the floating-point ceilings agree on them.
\<close>

definition go_float_to_uint :: "real \<Rightarrow> 'a::len word option" where
  "go_float_to_uint x =
     (let t = (if 0 \<le> x then \<lfloor>x\<rfloor> else \<lceil>x\<rceil>) in
      if 0 \<le> t \<and> t < 2 ^ LENGTH('a) then Some (word_of_int t) else None)"

definition optimalBitLen :: "u32 \<Rightarrow> real \<Rightarrow> u64 option" where
  "optimalBitLen n prob =
     (if prob \<le> 0 then None
      else
        (let ln2 = ln 2;
             optLen = - real (unat n) * ln prob / (ln2 * ln2)
         in go_float_to_uint (of_int \<lceil>optLen\<rceil>)))"

definition optimalHashQty :: "real \<Rightarrow> byte option" where
  "optimalHashQty prob =
     (if prob \<le> 0 then None
      else
        (let optQty = - ln prob / ln 2
         in go_float_to_uint (of_int \<lceil>optQty\<rceil>)))"

text \<open>The table of \<open>TestOptimalHashQty\<close>: probability and wanted hash count.\<close>

definition TestOptimalHashQty_cases :: "(real \<times> byte) list" where
  "TestOptimalHashQty_cases =
     [(0.1, 4), (0.01, 7), (0.0123, 7), (0.001, 10), (0.0001001231231, 14)]"

text \<open>The table of \<open>TestOptimalBitLen\<close>: elements, probability and wanted bit length.\<close>

definition TestOptimalBitLen_cases :: "(u32 \<times> real \<times> u64) list" where
  "TestOptimalBitLen_cases =
     [(1000000, 0.01, 9585059), (0, 0.01, 0), (2147483647, 0.01, 20583756121),
      (4294967295, 0.01, 41167512252)]"

definition TestOptimalBitLen :: bool where
  "TestOptimalBitLen =
     list_all (\<lambda>(n, prob, want). optimalBitLen n prob = Some want) TestOptimalBitLen_cases"

definition TestOptimalHashQty :: bool where
  "TestOptimalHashQty =
     list_all (\<lambda>(prob, want). optimalHashQty prob = Some want) TestOptimalHashQty_cases"

subsection \<open>Conversions and logarithms\<close>

lemma go_float_to_uint_int:
  "go_float_to_uint (of_int k) = (if 0 \<le> k \<and> k < 2 ^ LENGTH('a) then Some (word_of_int k :: 'a::len word) else None)"
  by (simp add: go_float_to_uint_def Let_def)

lemma go_float_to_uint_nat:
  "go_float_to_uint (real k) = (if k < 2 ^ LENGTH('a) then Some (word_of_nat k :: 'a::len word) else None)"
proof -
  have "int k < 2 ^ LENGTH('a) \<longleftrightarrow> k < 2 ^ LENGTH('a)" by (metis of_nat_less_iff of_nat_numeral of_nat_power)
  then show ?thesis using go_float_to_uint_int [of "int k", where 'a = 'a] by simp
qed

lemma ln_2_bounds: "1 / 2 \<le> ln (2::real) \<and> ln (2::real) \<le> 1"
proof
  have "ln (1 / 2 :: real) \<le> 1 / 2 - 1" by (rule ln_le_minus_one) simp
  then show "1 / 2 \<le> ln (2::real)" by (simp add: ln_div)
next
  have "ln (2::real) \<le> 2 - 1" by (rule ln_le_minus_one) simp
  then show "ln (2::real) \<le> 1" by simp
qed

lemma neg_ln_div_ln2: "0 < p \<Longrightarrow> - ln p / ln 2 = log 2 (1 / p)"
  by (simp add: log_def ln_div)

text \<open>\<open>\<lceil>log 2 x\<rceil> = k\<close> exactly when \<open>2 ^ (k - 1) < x \<le> 2 ^ k\<close>.\<close>

lemma ceiling_log2_eq:
  assumes "0 < x" "2 powr (real k - 1) < x" "x \<le> 2 powr real k"
  shows "\<lceil>log 2 x\<rceil> = int k"
proof (rule ceiling_unique)
  show "of_int (int k) - 1 < log 2 x" using assms(1,2) by (simp add: less_log_iff)
  show "log 2 x \<le> of_int (int k)" using assms(1,3) by (simp add: log_le_iff)
qed

lemma optimalHashQty_eq:
  assumes "0 < p" "2 powr (real k - 1) < 1 / p" "1 / p \<le> 2 powr real k" "k < 256"
  shows "optimalHashQty p = Some (word_of_nat k)"
proof -
  have "\<lceil>log 2 (1 / p)\<rceil> = int k"
    using assms(1-3) by (intro ceiling_log2_eq) simp_all
  then have "\<lceil>- (ln p / ln 2)\<rceil> = int k" using assms(1) by (simp only: neg_ln_div_ln2 minus_divide_left)
  then show ?thesis using assms(1,4) by (simp add: optimalHashQty_def go_float_to_uint_nat)
qed

lemma neg_ln_prob_bounds:
  assumes "0 < p" "p \<le> 1" "2 powr -255 \<le> (p::real)"
  shows "0 \<le> - ln p \<and> - ln p \<le> 255 * ln 2"
proof
  show "0 \<le> - ln p" using assms(1,2) by simp
  have "ln (2 powr -255) \<le> ln p" using assms(1,3) by (subst ln_le_cancel_iff) simp_all
  moreover have "ln (2 powr -255) = -255 * ln (2::real)" by (simp add: ln_powr)
  ultimately show "- ln p \<le> 255 * ln 2" by linarith
qed

lemma ceiling_in_range:
  assumes "0 \<le> (y::real)" "y + 1 \<le> 2 ^ k"
  shows "0 \<le> \<lceil>y\<rceil> \<and> \<lceil>y\<rceil> < 2 ^ k"
proof
  show "0 \<le> \<lceil>y\<rceil>" using assms(1) by simp
  have "of_int \<lceil>y\<rceil> < y + 1" using ceiling_correct [of y] by linarith
  then have "of_int \<lceil>y\<rceil> < (2::real) ^ k" using assms(2) by linarith
  then show "\<lceil>y\<rceil> < 2 ^ k" by (simp only: of_int_less_numeral_power_cancel_iff)
qed

lemma optimalHashQty_Some:
  assumes "0 < p" "p \<le> 1" "2 powr -255 \<le> p"
  shows "optimalHashQty p = Some (word_of_int \<lceil>- (ln p / ln 2)\<rceil>)
         \<and> 0 \<le> \<lceil>- (ln p / ln 2)\<rceil> \<and> \<lceil>- (ln p / ln 2)\<rceil> \<le> 255"
proof -
  have l2: "0 < ln (2::real)" by simp
  from neg_ln_prob_bounds [OF assms] have b: "0 \<le> - ln p" "- ln p \<le> 255 * ln 2" by auto
  have lt: "ln p < ln 2" using b(1) l2 by linarith
  have "0 \<le> - (ln p / ln 2)" using b(1) l2 by (simp add: divide_nonpos_pos)
  moreover have "- ln p / ln 2 \<le> 255 * ln 2 / ln 2"
    using b(2) l2 by (intro divide_right_mono) simp_all
  then have "- (ln p / ln 2) \<le> 255" using l2 by simp
  ultimately have "0 \<le> \<lceil>- (ln p / ln 2)\<rceil> \<and> \<lceil>- (ln p / ln 2)\<rceil> < 2 ^ 8"
    by (intro ceiling_in_range) simp_all
  then have c: "0 \<le> \<lceil>- (ln p / ln 2)\<rceil>" "\<lceil>- (ln p / ln 2)\<rceil> \<le> 255" by simp_all
  have eq1: "optimalHashQty p = go_float_to_uint (of_int \<lceil>- (ln p / ln 2)\<rceil>)"
    using assms(1) by (simp add: optimalHashQty_def)
  have "(2::int) ^ LENGTH(8) = 256" by simp
  then have c3: "\<lceil>- (ln p / ln 2)\<rceil> < 2 ^ LENGTH(8)" using c(2) by linarith
  have eq2: "go_float_to_uint (of_int \<lceil>- (ln p / ln 2)\<rceil>) = Some (word_of_int \<lceil>- (ln p / ln 2)\<rceil> :: byte)"
    by (simp only: go_float_to_uint_int c(1) c3 simp_thms if_True)
  show ?thesis by (simp only: eq1 eq2 c simp_thms)
qed

lemma optimalBitLen_Some:
  assumes "0 < p" "p \<le> 1" "2 powr -255 \<le> p"
  shows "optimalBitLen n p = Some (word_of_int \<lceil>- (real (unat n) * ln p / (ln 2 * ln 2))\<rceil>)
         \<and> 0 \<le> \<lceil>- (real (unat n) * ln p / (ln 2 * ln 2))\<rceil>
         \<and> \<lceil>- (real (unat n) * ln p / (ln 2 * ln 2))\<rceil> < 2 ^ 64"
proof -
  let ?x = "- (real (unat n) * ln p / (ln 2 * ln 2))"
  have l2: "1 / 2 \<le> ln (2::real)" using ln_2_bounds by simp
  from neg_ln_prob_bounds [OF assms] have b: "0 \<le> - ln p" "- ln p \<le> 255 * ln 2" by auto
  have "unat n < 2 ^ 32" using unsigned_less [of n] by simp
  then have n: "real (unat n) < 2 ^ 32" by (simp only: of_nat_less_numeral_power_cancel_iff)
  have x: "?x = real (unat n) * (- ln p) / (ln 2 * ln 2)" by simp
  have lnp: "ln p \<le> 0" using b(1) by simp
  have "0 \<le> real (unat n) * (- ln p) / (ln 2 * ln 2)"
    by (intro divide_nonneg_nonneg mult_nonneg_nonneg) (simp_all add: lnp del: of_nat_unat)
  then have "0 \<le> ?x" by (simp only: x)
  have "?x \<le> real (unat n) * (255 * ln 2) / (ln 2 * ln 2)"
    unfolding x using b(2) by (intro divide_right_mono mult_left_mono) (simp_all del: of_nat_unat)
  also have "\<dots> = 255 * real (unat n) / ln 2" by simp
  also have "\<dots> \<le> 255 * real (unat n) / (1 / 2)"
    using l2 by (intro divide_left_mono) (simp_all del: of_nat_unat)
  also have "\<dots> = 510 * real (unat n)" by simp
  also have "\<dots> < 2 ^ 63" using n by simp
  finally have "?x < 2 ^ 63" .
  note \<open>0 \<le> ?x\<close> this
  then have "0 \<le> \<lceil>?x\<rceil> \<and> \<lceil>?x\<rceil> < 2 ^ 64"
    by (intro ceiling_in_range) simp_all
  then have c: "0 \<le> \<lceil>?x\<rceil>" "\<lceil>?x\<rceil> < 2 ^ 64" by simp_all
  have eq1: "optimalBitLen n p = go_float_to_uint (of_int \<lceil>?x\<rceil>)"
    using assms(1) by (simp add: optimalBitLen_def Let_def)
  have "(2::int) ^ LENGTH(64) = 2 ^ 64" by simp
  then have c3: "\<lceil>?x\<rceil> < 2 ^ LENGTH(64)" using c(2) by simp
  have eq2: "go_float_to_uint (of_int \<lceil>?x\<rceil>) = Some (word_of_int \<lceil>?x\<rceil> :: u64)"
    by (simp only: go_float_to_uint_int c(1) c3 simp_thms if_True)
  show ?thesis by (simp only: eq1 eq2 c simp_thms)
qed

lemma uint_word_of_int_in_range:
  "0 \<le> c \<Longrightarrow> c < 2 ^ LENGTH('a) \<Longrightarrow> uint (word_of_int c :: 'a::len word) = c"
  by (simp add: uint_word_of_int_eq take_bit_int_eq_self)

lemma unat_word_of_int_in_range:
  "0 \<le> c \<Longrightarrow> c < 2 ^ LENGTH('a) \<Longrightarrow> unat (word_of_int c :: 'a::len word) = nat c"
  by (metis uint_word_of_int_in_range unat_eq_nat_uint)

lemma two_powr_neg255_le: "(2::real) powr -255 \<le> 1 / 100"
  by (simp add: powr_minus powr_realpow divide_le_eq)

lemma optimal_params:
  assumes "0 < p" "p \<le> 1" "2 powr -255 \<le> p" "n \<noteq> 0"
  shows "\<exists>q bl. optimalHashQty p = Some q \<and> optimalBitLen n p = Some bl \<and> (q \<noteq> 0 \<longrightarrow> bl \<noteq> 0)"
proof -
  let ?cq = "\<lceil>- (ln p / ln 2)\<rceil>" and ?cb = "\<lceil>- (real (unat n) * ln p / (ln 2 * ln 2))\<rceil>"
  from optimalHashQty_Some [OF assms(1-3)]
  have q: "optimalHashQty p = Some (word_of_int ?cq)" and cq: "0 \<le> ?cq" "?cq \<le> 255" by auto
  from optimalBitLen_Some [OF assms(1-3), of n]
  have b: "optimalBitLen n p = Some (word_of_int ?cb)" and cb: "0 \<le> ?cb" "?cb < 2 ^ 64" by auto
  have "word_of_int ?cq \<noteq> (0::byte) \<longrightarrow> word_of_int ?cb \<noteq> (0::u64)"
  proof
    assume "word_of_int ?cq \<noteq> (0::byte)"
    then have "uint (word_of_int ?cq :: byte) \<noteq> 0" by (metis uint_0_iff)
    then have "?cq \<noteq> 0" using cq by (simp add: uint_word_of_int_in_range)
    then have "1 \<le> ?cq" using cq(1) by linarith
    then have "0 < - (ln p / ln 2)" by (simp only: one_le_ceiling)
    then have lnp: "ln p < 0" by (simp add: divide_less_0_iff)
    have "0 < unat n" using assms(4) by (simp add: unat_gt_0)
    then have "real (unat n) * ln p < 0" using lnp by (simp add: mult_pos_neg del: of_nat_unat)
    then have "0 < - (real (unat n) * ln p / (ln 2 * ln 2))" by (simp add: divide_less_0_iff del: of_nat_unat)
    then have "1 \<le> ?cb" by (simp only: one_le_ceiling)
    then have ne: "?cb \<noteq> 0" by linarith
    have "uint (word_of_int ?cb :: u64) = ?cb" using cb by (intro uint_word_of_int_in_range) simp_all
    with ne show "word_of_int ?cb \<noteq> (0::u64)" by (metis uint_0_iff)
  qed
  with q b show ?thesis by blast
qed

subsection \<open>Properties of the planner\<close>

lemma go_float_to_uint_SomeD:
  "go_float_to_uint (of_int c) = Some (w :: 'a::len word) \<Longrightarrow> 0 \<le> c \<and> c < 2 ^ LENGTH('a) \<and> uint w = c"
  by (auto simp: go_float_to_uint_int split: if_splits intro: uint_word_of_int_in_range)

lemma optimalHashQty_nonzero:
  assumes "optimalHashQty p = Some q" "q \<noteq> 0"
  shows "0 < p \<and> ln p < 0"
proof -
  have p: "0 < p" using assms(1) by (auto simp: optimalHashQty_def split: if_splits)
  let ?c = "\<lceil>- ln p / ln 2\<rceil>"
  have "go_float_to_uint (of_int ?c) = Some q" using assms(1) p by (simp add: optimalHashQty_def Let_def)
  then have "uint q = ?c" by (blast dest: go_float_to_uint_SomeD)
  then have "?c \<noteq> 0" using assms(2) by (metis uint_0_iff)
  moreover have "0 \<le> ?c" using \<open>uint q = ?c\<close> by (metis uint_ge_0)
  ultimately have "0 < ?c" by linarith
  then have "0 < - ln p / ln 2" by (metis ceiling_le_zero not_le)
  moreover have "0 < ln (2::real)" by simp
  ultimately have "0 < - ln p" by (metis divide_nonpos_pos not_less)
  then show ?thesis using p by simp
qed

lemma optimalBitLen_nonzero:
  assumes "optimalBitLen n p = Some bl" "n \<noteq> 0" "ln p < 0"
  shows "bl \<noteq> 0"
proof -
  have p: "0 < p" using assms(1) by (auto simp: optimalBitLen_def split: if_splits)
  let ?x = "- real (unat n) * ln p / (ln 2 * ln 2)"
  have "go_float_to_uint (of_int \<lceil>?x\<rceil>) = Some bl" using assms(1) p by (simp add: optimalBitLen_def Let_def)
  then have u: "uint bl = \<lceil>?x\<rceil>" by (blast dest: go_float_to_uint_SomeD)
  have "0 < unat n" using assms(2) by (simp add: unat_gt_0)
  then have "0 < real (unat n)" by (simp del: of_nat_unat)
  moreover have "0 < - ln p" using assms(3) by simp
  ultimately have "0 < real (unat n) * (- ln p) / (ln 2 * ln 2)"
    by (intro divide_pos_pos mult_pos_pos) simp_all
  then have "0 < ?x" by simp
  then have "0 < \<lceil>?x\<rceil>" by simp
  then show ?thesis using u by (metis less_irrefl uint_0_iff)
qed

text \<open>The bit length at a probability \<open>10 ^ -k\<close>, from the bounds on \<open>ln 2\<close> and
  \<open>ln 10\<close>: \<open>c\<close> is the ceiling when the bounds put the exact value in \<open>(c - 1, c]\<close>.\<close>

lemma optimalBitLen_ln10:
  assumes "0 < p" "ln p = - (real k * ln 10)" "1 \<le> c" "c < 2 ^ 64"
    and "(real c - 1) * (693147180559945671 / 10 ^ 18) ^ 2 < real (unat n) * real k * (2302585092994040693 / 10 ^ 18)"
    and "real (unat n) * real k * (2302585092994046889 / 10 ^ 18) \<le> real c * (693147180559943812 / 10 ^ 18) ^ 2"
  shows "optimalBitLen n p = Some (word_of_nat c)"
proof -
  let ?L = "ln (2::real)" and ?T = "ln (10::real)" and ?m = "real (unat n) * real k"
  have b: "693147180559943812 / 10 ^ 18 \<le> ?L" "?L \<le> 693147180559945671 / 10 ^ 18" "2302585092994040693 / 10 ^ 18 \<le> ?T" "?T \<le> 2302585092994046889 / 10 ^ 18"
    using ln_2_10_bounds by simp_all
  have m: "0 \<le> ?m" by (intro mult_nonneg_nonneg) (simp_all del: of_nat_unat)
  have L: "0 < ?L" by simp
  have sq1: "(693147180559943812 / 10 ^ 18 :: real) ^ 2 \<le> ?L ^ 2" using b(1) by (intro power_mono) simp_all
  have sq2: "?L ^ 2 \<le> (693147180559945671 / 10 ^ 18 :: real) ^ 2" using b(2) L by (intro power_mono) simp_all
  have "?m * ?T \<le> ?m * (2302585092994046889 / 10 ^ 18)" using b(4) m by (rule mult_left_mono)
  also have "\<dots> \<le> real c * (693147180559943812 / 10 ^ 18) ^ 2" using assms(6) by simp
  also have "\<dots> \<le> real c * ?L ^ 2" using sq1 by (rule mult_left_mono) simp
  finally have up: "?m * ?T / ?L ^ 2 \<le> real c" using L by (simp add: pos_divide_le_eq)
  have "(real c - 1) * ?L ^ 2 \<le> (real c - 1) * (693147180559945671 / 10 ^ 18) ^ 2" using sq2 assms(3) by (intro mult_left_mono) simp_all
  also have "\<dots> < ?m * (2302585092994040693 / 10 ^ 18)" using assms(5) by simp
  also have "\<dots> \<le> ?m * ?T" using b(3) m by (rule mult_left_mono)
  finally have lo: "real c - 1 < ?m * ?T / ?L ^ 2" using L by (simp add: pos_less_divide_eq)
  have x: "- real (unat n) * ln p / (?L * ?L) = ?m * ?T / ?L ^ 2" using assms(2) by (simp add: power2_eq_square)
  have "\<lceil>- real (unat n) * ln p / (?L * ?L)\<rceil> = int c"
    unfolding x using up lo by (intro ceiling_unique) simp_all
  then show ?thesis using assms(1,4) by (simp add: optimalBitLen_def go_float_to_uint_nat)
qed

text \<open>The bit lengths the tests expect, evaluated from the bounds on the logarithms.\<close>

lemma optimalBitLen_table:
  "optimalBitLen 1000000 0.01 = Some 9585059 \<and> optimalBitLen 2147483647 0.01 = Some 20583756121
   \<and> optimalBitLen 4294967295 0.01 = Some 41167512252 \<and> optimalBitLen 1 0.01 = Some 10
   \<and> optimalBitLen 6 0.01 = Some 58 \<and> optimalBitLen 7 0.01 = Some 68
   \<and> optimalBitLen 4294967295 0.001 = Some 61751268378"
proof (intro conjI)
  show "optimalBitLen 1000000 0.01 = Some 9585059"
    using optimalBitLen_ln10 [OF _ ln_hundredth, of 9585059 1000000] by (simp add: power_divide)
  show "optimalBitLen 2147483647 0.01 = Some 20583756121"
    using optimalBitLen_ln10 [OF _ ln_hundredth, of 20583756121 2147483647] by (simp add: power_divide)
  show "optimalBitLen 4294967295 0.01 = Some 41167512252"
    using optimalBitLen_ln10 [OF _ ln_hundredth, of 41167512252 4294967295] by (simp add: power_divide)
  show "optimalBitLen 1 0.01 = Some 10"
    using optimalBitLen_ln10 [OF _ ln_hundredth, of 10 1] by (simp add: power_divide)
  show "optimalBitLen 6 0.01 = Some 58"
    using optimalBitLen_ln10 [OF _ ln_hundredth, of 58 6] by (simp add: power_divide)
  show "optimalBitLen 7 0.01 = Some 68"
    using optimalBitLen_ln10 [OF _ ln_hundredth, of 68 7] by (simp add: power_divide)
  show "optimalBitLen 4294967295 0.001 = Some 61751268378"
    using optimalBitLen_ln10 [OF _ ln_thousandth, of 61751268378 4294967295] by (simp add: power_divide)
qed

lemma optimalHashQty_hundredth: "optimalHashQty 0.01 = Some 7"
  by (rule optimalHashQty_eq [where k = 7, simplified]) simp_all

lemma optimalHashQty_thousandth: "optimalHashQty 0.001 = Some 10"
  by (rule optimalHashQty_eq [where k = 10, simplified]) simp_all

lemma optimalHashQty_one: "optimalHashQty 1 = Some 0"
  by (simp add: optimalHashQty_def go_float_to_uint_def)

lemma optimalBitLen_prob_one: "optimalBitLen n 1 = Some 0"
  by (simp add: optimalBitLen_def go_float_to_uint_def)

text \<open>Every row of the table of \<open>TestOptimalBitLen\<close> holds of the exact planner at
  probability 0.01: one million elements need 9585059 bits, none
  need 0, 2147483647 need 20583756121 and 4294967295 need 41167512252.\<close>

theorem TestOptimalBitLen_passes: "TestOptimalBitLen"
proof -
  have "optimalBitLen 0 0.01 = Some 0"
    by (simp add: optimalBitLen_def go_float_to_uint_def)
  then show ?thesis using optimalBitLen_table by (simp add: TestOptimalBitLen_def TestOptimalBitLen_cases_def)
qed

text \<open>Every row of the table of \<open>TestOptimalHashQty\<close> holds of the exact planner: 0.1 gives 4 hash functions, 0.01 and 0.0123 give 7, 0.001 gives 10
  and 0.0001001231231 gives 14.\<close>

theorem TestOptimalHashQty_passes: "TestOptimalHashQty"
proof -
  have "optimalHashQty 0.1 = Some 4"
    by (rule optimalHashQty_eq [where k = 4, simplified]) simp_all
  moreover note optimalHashQty_hundredth
  moreover have "optimalHashQty 0.0123 = Some 7"
    by (rule optimalHashQty_eq [where k = 7, simplified]) simp_all
  moreover note optimalHashQty_thousandth
  moreover have "optimalHashQty 0.0001001231231 = Some 14"
    by (rule optimalHashQty_eq [where k = 14, simplified]) simp_all
  ultimately show ?thesis by (simp add: TestOptimalHashQty_def TestOptimalHashQty_cases_def)
qed

text \<open>C27: For a probability at most \<open>1/2\<close> (and at least
  \<open>2 ^ -255\<close>), \<open>optimalBitLen\<close> fits in \<open>uint64\<close> and gives at least one bit per
  intended element.\<close>

theorem optimalBitLen_ge_n:
  assumes "0 < p" and "p \<le> 1 / 2" and "2 powr -255 \<le> p"
  shows "\<exists>bl. optimalBitLen n p = Some bl \<and> unat n \<le> unat bl"
proof -
  let ?y = "- (real (unat n) * ln p / (ln 2 * ln 2))"
  from optimalBitLen_Some [OF assms(1) _ assms(3), of n] assms(2)
  have b: "optimalBitLen n p = Some (word_of_int \<lceil>?y\<rceil>)" and c: "0 \<le> \<lceil>?y\<rceil>" "\<lceil>?y\<rceil> < 2 ^ 64"
    by auto
  have u: "unat (word_of_int \<lceil>?y\<rceil> :: u64) = nat \<lceil>?y\<rceil>" using c by (intro unat_word_of_int_in_range) simp_all
  have l2: "0 < ln (2::real)" "ln (2::real) \<le> 1" using ln_2_bounds by simp_all
  have "ln p \<le> ln (1 / 2)" using assms(1,2) by simp
  then have lp: "ln 2 \<le> - ln p" by (simp add: ln_div)
  have "ln 2 * ln 2 \<le> ln (2::real)" using l2 by (simp add: mult_le_cancel_right1)
  then have "ln 2 * ln 2 \<le> - ln p" using lp by linarith
  moreover have "0 < ln 2 * ln (2::real)" using l2(1) by simp
  ultimately have "1 \<le> - ln p / (ln 2 * ln 2)" by (simp only: le_divide_eq_1_pos)
  then have "real (unat n) * 1 \<le> real (unat n) * (- ln p / (ln 2 * ln 2))"
    by (intro mult_left_mono) (simp_all del: of_nat_unat)
  also have "\<dots> = ?y" by simp
  also have "\<dots> \<le> of_int \<lceil>?y\<rceil>" by (rule le_of_int_ceiling)
  finally have "real (unat n) * 1 \<le> of_int \<lceil>?y\<rceil>" .
  then have "of_int (int (unat n)) \<le> (of_int \<lceil>?y\<rceil> :: real)" by simp
  then have "int (unat n) \<le> \<lceil>?y\<rceil>" by (simp only: of_int_le_iff)
  then have "unat n \<le> unat (word_of_int \<lceil>?y\<rceil> :: u64)" using u by arith
  with b show ?thesis by blast
qed

theorem optimalBitLen_ge_n_witness:
  "0 < (0.01::real) \<and> (0.01::real) \<le> 1 / 2 \<and> 2 powr -255 \<le> (0.01::real)
   \<and> (\<exists>bl. optimalBitLen 1000000 0.01 = Some bl \<and> unat (1000000::u32) \<le> unat bl)"
proof -
  have h: "0 < (0.01::real)" "(0.01::real) \<le> 1 / 2" "2 powr -255 \<le> (0.01::real)"
    using two_powr_neg255_le by simp_all
  show ?thesis using h optimalBitLen_ge_n [OF h, of 1000000] by blast
qed

end
