(* ===== verification/Bloom_Filter.thy ===== *)
theory Bloom_Filter
  imports Hashing Bit_Location Capacity
begin

text \<open>
  The \<open>Filter\<close> of \<open>bloom.go\<close> and its operations. The record has the struct's five
  fields (the field \<open>n\<close> is called \<open>n_elems\<close> here, since \<open>n\<close> is the usual name
  of a variable; for the same reason the parameter \<open>prob\<close> of \<open>New\<close> is \<open>p\<close>).
  \<open>New\<close> returns \<open>None\<close> where the Go conversions of the planner are
  implementation-dependent, \<open>Inl\<close> for the two errors of \<open>errors.go\<close> and \<open>Inr\<close> for
  the new filter. \<open>Add\<close> and \<open>Has\<close> take the hasher that stands for
  \<open>crypto/sha256\<close>; their result is \<open>Inl\<close> for a panic and \<open>Inr\<close> for what the Go
  method returns, \<open>Add\<close> with the filter after its in-place update of \<open>bitstore\<close>.
  A panic in the middle of \<open>Add\<close>'s loop would leave the bits set so far; the model
  does not keep that state, since a panic ends the program unless it is recovered.
\<close>

record Filter =
  prob :: real
  bitlen :: u64
  hashqty :: byte
  n_elems :: u32
  bitstore :: "u64 list"

text \<open>\<open>New\<close> with the capacity planner as a parameter: \<open>hq\<close> is \<open>optimalHashQty\<close>
  and \<open>bl\<close> is \<open>optimalBitLen\<close>. \<open>New\<close> takes the exact planner of \<open>Capacity\<close>;
  \<open>Capacity_Float\<close> gives the one in \<open>float64\<close>.\<close>

definition New_with :: "(real \<Rightarrow> byte option) \<Rightarrow> (u32 \<Rightarrow> real \<Rightarrow> u64 option) \<Rightarrow> u32 \<Rightarrow> real
                          \<Rightarrow> (error + Filter) option" where
  "New_with hq bl n p =
     (if n = 0 then Some (Inl ErrZeroElements)
      else if p \<le> 0 then Some (Inl ErrProbability)
      else
        (case hq p of
           None \<Rightarrow> None
         | Some q \<Rightarrow>
             (case bl n p of
                None \<Rightarrow> None
              | Some bl \<Rightarrow>
                  (let buckets = bl div 64;
                       buckets = (if bl mod 64 \<noteq> 0 then buckets + 1 else buckets)
                   in Some (Inr \<lparr>prob = p, bitlen = bl, hashqty = q, n_elems = n,
                                 bitstore = replicate (unat buckets) 0\<rparr>)))))"

definition New :: "u32 \<Rightarrow> real \<Rightarrow> (error + Filter) option" where
  "New = New_with optimalHashQty optimalBitLen"

text \<open>The loop of \<open>Add\<close>: \<open>bf.bitstore[index] |= 1 << offset\<close> for every position;
  an index outside the slice panics.\<close>

fun add_positions :: "u64 list \<Rightarrow> u64 list \<Rightarrow> panic + u64 list" where
  "add_positions store [] = Inr store"
| "add_positions store (p # ps) =
     (let (index, offset) = bitlocation p 64;
          mask = push_bit (unat offset) (1::u64)
      in if index < 0 \<or> int (length store) \<le> index then Inl IndexOutOfRange
         else add_positions (store[nat index := store ! nat index OR mask]) ps)"

definition Add :: "hasher \<Rightarrow> Filter \<Rightarrow> bytes \<Rightarrow> panic + (error option \<times> Filter)" where
  "Add h bf element =
     (case bitpositions h element (hashqty bf) (bitlen bf) of
        Inl pn \<Rightarrow> Inl pn
      | Inr (pos, Some err) \<Rightarrow> Inr (Some err, bf)
      | Inr (pos, None) \<Rightarrow>
          (case add_positions (bitstore bf) pos of
             Inl pn \<Rightarrow> Inl pn
           | Inr store \<Rightarrow> Inr (None, bf\<lparr>bitstore := store\<rparr>)))"

text \<open>The loop of \<open>Has\<close>: the first position whose bit is 0 returns \<open>false\<close>.\<close>

fun test_positions :: "u64 list \<Rightarrow> u64 list \<Rightarrow> panic + bool" where
  "test_positions store [] = Inr True"
| "test_positions store (p # ps) =
     (let (index, offset) = bitlocation p 64;
          mask = push_bit (unat offset) (1::u64)
      in if index < 0 \<or> int (length store) \<le> index then Inl IndexOutOfRange
         else if store ! nat index AND mask = 0 then Inr False
         else test_positions store ps)"

definition Has :: "hasher \<Rightarrow> Filter \<Rightarrow> bytes \<Rightarrow> panic + (bool \<times> error option)" where
  "Has h bf element =
     (case bitpositions h element (hashqty bf) (bitlen bf) of
        Inl pn \<Rightarrow> Inl pn
      | Inr (pos, Some err) \<Rightarrow> Inr (False, Some err)
      | Inr (pos, None) \<Rightarrow>
          (case test_positions (bitstore bf) pos of
             Inl pn \<Rightarrow> Inl pn
           | Inr isIn \<Rightarrow> Inr (isIn, None)))"

definition MustAdd :: "hasher \<Rightarrow> Filter \<Rightarrow> bytes \<Rightarrow> panic + Filter" where
  "MustAdd h bf element =
     (case Add h bf element of
        Inl pn \<Rightarrow> Inl pn
      | Inr (Some err, bf') \<Rightarrow> Inl (PanicError err)
      | Inr (None, bf') \<Rightarrow> Inr bf')"

definition MustHave :: "hasher \<Rightarrow> Filter \<Rightarrow> bytes \<Rightarrow> panic + bool" where
  "MustHave h bf element =
     (case Has h bf element of
        Inl pn \<Rightarrow> Inl pn
      | Inr (isIn, Some err) \<Rightarrow> Inl (PanicError err)
      | Inr (isIn, None) \<Rightarrow> Inr isIn)"


text \<open>A filter for concrete runs: the one of \<open>TestFilter_Add\<close>, 48 bits in one
  bucket and four hash functions, empty.\<close>

definition example_filter :: Filter where
  "example_filter = \<lparr>prob = 1 / 100, bitlen = 48, hashqty = 4, n_elems = 1, bitstore = [0]\<rparr>"

subsection \<open>Invariant and abstraction\<close>

text \<open>
  A well-formed filter: a filter that hashes has a non-zero bit length; \<open>bitstore\<close>
  has exactly \<open>\<lceil>bitlen / 64\<rceil>\<close> buckets; and no bit at or beyond \<open>bitlen\<close> is set.
  The abstraction of a filter is the set of positions whose bit is 1.
\<close>

definition wf_filter :: "Filter \<Rightarrow> bool" where
  "wf_filter bf \<longleftrightarrow>
     (hashqty bf \<noteq> 0 \<longrightarrow> bitlen bf \<noteq> 0) \<and>
     length (bitstore bf) = (unat (bitlen bf) + 63) div 64 \<and>
     (\<forall>i\<in>{unat (bitlen bf)..<64 * length (bitstore bf)}. \<not> bit (bitstore bf ! (i div 64)) (i mod 64))"

definition set_bits :: "Filter \<Rightarrow> nat set" where
  "set_bits bf = bits_of (bitstore bf)"

subsection \<open>Loops of Add and Has\<close>

lemma add_positions_Cons:
  "unat p < 64 * length store \<Longrightarrow>
   add_positions store (p # ps) =
     add_positions (store[unat p div 64 := store ! (unat p div 64) OR 2 ^ (unat p mod 64)]) ps"
  using div_64_less [of "unat p" "length store"] by (simp add: bitlocation_64)

lemma test_positions_Cons:
  "unat p < 64 * length store \<Longrightarrow>
   test_positions store (p # ps) =
     (if unat p \<in> bits_of store then test_positions store ps else Inr False)"
  using div_64_less [of "unat p" "length store"] by (simp add: bitlocation_64 mem_bits_of)

lemma add_positions_ok:
  "\<forall>p\<in>set ps. unat p < 64 * length store \<Longrightarrow>
   \<exists>store'. add_positions store ps = Inr store' \<and> length store' = length store
            \<and> bits_of store' = bits_of store \<union> unat ` set ps"
proof (induction ps arbitrary: store)
  case Nil
  then show ?case by simp
next
  case (Cons p ps)
  let ?s = "store[unat p div 64 := store ! (unat p div 64) OR 2 ^ (unat p mod 64)]"
  have p: "unat p < 64 * length store" using Cons.prems by simp
  have "\<forall>q\<in>set ps. unat q < 64 * length ?s" using Cons.prems by simp
  then obtain s' where s': "add_positions ?s ps = Inr s'" "length s' = length ?s"
    "bits_of s' = bits_of ?s \<union> unat ` set ps" using Cons.IH by blast
  have "bits_of ?s = insert (unat p) (bits_of store)" using p by (rule bits_of_set_bit)
  then show ?case using s' p by (simp add: add_positions_Cons del: add_positions.simps)
qed

lemma test_positions_ok:
  "\<forall>p\<in>set ps. unat p < 64 * length store \<Longrightarrow>
   test_positions store ps = Inr (unat ` set ps \<subseteq> bits_of store)"
proof (induction ps)
  case Nil
  then show ?case by simp
next
  case (Cons p ps)
  then show ?case by (simp add: test_positions_Cons del: test_positions.simps)
qed

lemma bits_of_eqI:
  assumes "length a = length b" "bits_of a = bits_of b"
  shows "a = b"
proof (rule nth_equalityI)
  show "length a = length b" by (rule assms(1))
  fix k assume k: "k < length a"
  show "a ! k = b ! k"
  proof (rule bit_word_eqI)
    fix m assume "m < LENGTH(64)"
    then have m: "m < 64" by simp
    let ?i = "64 * k + m"
    have "?i < 64 * length a" using k m by simp
    moreover have "?i div 64 = k" "?i mod 64 = m" using m by simp_all
    ultimately have "?i \<in> bits_of a \<longleftrightarrow> bit (a ! k) m" "?i \<in> bits_of b \<longleftrightarrow> bit (b ! k) m"
      using assms(1) by (simp_all add: mem_bits_of)
    then show "bit (a ! k) m \<longleftrightarrow> bit (b ! k) m" using assms(2) by simp
  qed
qed

lemma wf_filter_iff:
  "wf_filter bf \<longleftrightarrow>
     (hashqty bf \<noteq> 0 \<longrightarrow> bitlen bf \<noteq> 0) \<and>
     length (bitstore bf) = (unat (bitlen bf) + 63) div 64 \<and>
     set_bits bf \<subseteq> {..<unat (bitlen bf)}"
  unfolding wf_filter_def set_bits_def bits_of_def by (auto simp: subset_eq not_less)

lemma buckets_cover: "(k::nat) \<le> 64 * ((k + 63) div 64)"
proof -
  have "(k + 63) div 64 * 64 + (k + 63) mod 64 = k + 63" by (rule div_mult_mod_eq)
  moreover have "(k + 63) mod 64 < 64" by simp
  ultimately show ?thesis by linarith
qed

lemma wf_position_fits:
  "wf_filter bf \<Longrightarrow> p < bitlen bf \<Longrightarrow> unat p < 64 * length (bitstore bf)"
  using buckets_cover [of "unat (bitlen bf)"] by (auto simp: wf_filter_def word_less_nat_alt)

lemma add_positions_length:
  "add_positions s ps = Inr s' \<Longrightarrow> length s' = length s"
proof (induction ps arbitrary: s)
  case Nil
  then show ?case by simp
next
  case (Cons p ps)
  then show ?case by (auto simp: bitlocation_64 Let_def split: if_splits)
qed

lemma add_positions_mono:
  "add_positions s ps = Inr s' \<Longrightarrow> bits_of s \<subseteq> bits_of s'"
proof (induction ps arbitrary: s)
  case Nil
  then show ?case by simp
next
  case (Cons p ps)
  then have in_range: "unat p div 64 < length s"
    by (simp add: bitlocation_64 split: if_splits)
  then have "unat p < 64 * length s" by (simp add: div_less_iff_less_mult mult.commute)
  then have "add_positions (s[unat p div 64 := s ! (unat p div 64) OR 2 ^ (unat p mod 64)]) ps = Inr s'"
    and "bits_of (s[unat p div 64 := s ! (unat p div 64) OR 2 ^ (unat p mod 64)]) = insert (unat p) (bits_of s)"
    using Cons.prems by (simp_all add: add_positions_Cons bits_of_set_bit del: add_positions.simps)
  then show ?case using Cons.IH by blast
qed

lemma positions_fit:
  assumes "wf_filter bf" "bitpositions h e (hashqty bf) (bitlen bf) = Inr (pos, None)"
  shows "\<forall>p\<in>set pos. unat p < 64 * length (bitstore bf)" "\<forall>p\<in>set pos. unat p < unat (bitlen bf)"
  using bitpositions_in_range [OF assms(2)] wf_position_fits [OF assms(1)]
  by (auto simp: word_less_nat_alt)

lemma Add_ok:
  assumes "wf_filter bf" "bitpositions h e (hashqty bf) (bitlen bf) = Inr (pos, None)"
  shows "\<exists>store'. Add h bf e = Inr (None, bf\<lparr>bitstore := store'\<rparr>) \<and> length store' = length (bitstore bf)
                  \<and> bits_of store' = bits_of (bitstore bf) \<union> unat ` set pos"
proof -
  obtain store' where s: "add_positions (bitstore bf) pos = Inr store'" "length store' = length (bitstore bf)"
    "bits_of store' = bits_of (bitstore bf) \<union> unat ` set pos"
    using add_positions_ok [OF positions_fit(1) [OF assms]] by blast
  have "Add h bf e = Inr (None, bf\<lparr>bitstore := store'\<rparr>)" using s(1) assms(2) by (simp add: Add_def)
  then show ?thesis using s(2,3) by blast
qed

lemma Has_ok:
  assumes "wf_filter bf" "bitpositions h e (hashqty bf) (bitlen bf) = Inr (pos, None)"
  shows "Has h bf e = Inr (unat ` set pos \<subseteq> set_bits bf, None)"
  using assms(2) test_positions_ok [OF positions_fit(1) [OF assms]] by (simp add: Has_def set_bits_def)

lemma Add_cases:
  "Add h bf e = Inr (r, bf') \<Longrightarrow>
     (\<exists>pos err. r = Some err \<and> bf' = bf \<and> bitpositions h e (hashqty bf) (bitlen bf) = Inr (pos, Some err)) \<or>
     (\<exists>pos store. r = None \<and> bitpositions h e (hashqty bf) (bitlen bf) = Inr (pos, None)
            \<and> add_positions (bitstore bf) pos = Inr store \<and> bf' = bf\<lparr>bitstore := store\<rparr>)"
  by (auto simp: Add_def split: sum.splits prod.splits option.splits)

lemma Add_None:
  assumes "Add h bf e = Inr (None, bf')"
  obtains pos store where "bitpositions h e (hashqty bf) (bitlen bf) = Inr (pos, None)"
    "add_positions (bitstore bf) pos = Inr store" "bf' = bf\<lparr>bitstore := store\<rparr>"
  using Add_cases [OF assms] by auto

lemma Add_wf:
  assumes "wf_filter bf" "Add h bf e = Inr (r, bf')"
  shows "wf_filter bf'"
  using Add_cases [OF assms(2)]
proof
  assume "\<exists>pos err. r = Some err \<and> bf' = bf \<and> bitpositions h e (hashqty bf) (bitlen bf) = Inr (pos, Some err)"
  then show ?thesis using assms(1) by auto
next
  assume "\<exists>pos store. r = None \<and> bitpositions h e (hashqty bf) (bitlen bf) = Inr (pos, None)
            \<and> add_positions (bitstore bf) pos = Inr store \<and> bf' = bf\<lparr>bitstore := store\<rparr>"
  then obtain pos store where bp: "bitpositions h e (hashqty bf) (bitlen bf) = Inr (pos, None)"
    and ap: "add_positions (bitstore bf) pos = Inr store" and bf': "bf' = bf\<lparr>bitstore := store\<rparr>"
    by blast
  obtain store' where s: "add_positions (bitstore bf) pos = Inr store'" "length store' = length (bitstore bf)"
    "bits_of store' = bits_of (bitstore bf) \<union> unat ` set pos"
    using add_positions_ok [OF positions_fit(1) [OF assms(1) bp]] by blast
  have "store' = store" using s(1) ap by simp
  moreover have "unat ` set pos \<subseteq> {..<unat (bitlen bf)}" using positions_fit(2) [OF assms(1) bp] by auto
  ultimately show ?thesis using assms(1) s(2,3) unfolding bf' by (simp add: wf_filter_iff set_bits_def)
qed

text \<open>The effect of a successful \<open>Add\<close> on a well-formed filter: only \<open>bitstore\<close>
  changes, and its set bits gain exactly the element's positions.\<close>

lemma Add_effect:
  assumes "wf_filter bf" "bitpositions h e (hashqty bf) (bitlen bf) = Inr (pos, None)"
  shows "\<exists>store. Add h bf e = Inr (None, bf\<lparr>bitstore := store\<rparr>) \<and> length store = length (bitstore bf)
                \<and> bits_of store = bits_of (bitstore bf) \<union> unat ` set pos"
  using Add_ok [OF assms] by blast

lemma Filter_bitstore_self: "\<exists>store. bf = bf\<lparr>bitstore := store\<rparr>"
  by (intro exI [of _ "bitstore bf"]) simp

lemma Add_None_positions:
  assumes "wf_filter bf" "Add h bf e = Inr (None, bf')"
  shows "\<exists>pos. bitpositions h e (hashqty bf) (bitlen bf) = Inr (pos, None) \<and> unat ` set pos \<subseteq> set_bits bf'"
proof -
  obtain pos store where bp: "bitpositions h e (hashqty bf) (bitlen bf) = Inr (pos, None)"
    and ap: "add_positions (bitstore bf) pos = Inr store" and bf': "bf' = bf\<lparr>bitstore := store\<rparr>"
    using assms(2) by (rule Add_None)
  obtain store' where s: "add_positions (bitstore bf) pos = Inr store'"
    "bits_of store' = bits_of (bitstore bf) \<union> unat ` set pos"
    using add_positions_ok [OF positions_fit(1) [OF assms(1) bp]] by blast
  have "unat ` set pos \<subseteq> set_bits bf'" using s ap bf' by (simp add: set_bits_def)
  then show ?thesis using bp by blast
qed

text \<open>Every \<open>Add\<close> that returns keeps the invariant, only sets bits, and changes no
  field but \<open>bitstore\<close>.\<close>

lemma Add_step:
  assumes "wf_filter bf" "Add h bf e = Inr (r, bf')"
  shows "wf_filter bf' \<and> set_bits bf \<subseteq> set_bits bf' \<and> (\<exists>store. bf' = bf\<lparr>bitstore := store\<rparr>)"
  using Add_cases [OF assms(2)]
proof
  assume "\<exists>pos err. r = Some err \<and> bf' = bf \<and> bitpositions h e (hashqty bf) (bitlen bf) = Inr (pos, Some err)"
  then have "bf' = bf" by blast
  then show ?thesis using assms(1) Filter_bitstore_self by blast
next
  assume "\<exists>pos store. r = None \<and> bitpositions h e (hashqty bf) (bitlen bf) = Inr (pos, None)
            \<and> add_positions (bitstore bf) pos = Inr store \<and> bf' = bf\<lparr>bitstore := store\<rparr>"
  then obtain pos store where bp: "bitpositions h e (hashqty bf) (bitlen bf) = Inr (pos, None)"
    and ap: "add_positions (bitstore bf) pos = Inr store" and bf': "bf' = bf\<lparr>bitstore := store\<rparr>"
    by blast
  obtain store' where s: "add_positions (bitstore bf) pos = Inr store'"
    "bits_of store' = bits_of (bitstore bf) \<union> unat ` set pos"
    using add_positions_ok [OF positions_fit(1) [OF assms(1) bp]] by blast
  have "set_bits bf \<subseteq> set_bits bf'" using s ap bf' by (auto simp: set_bits_def)
  then show ?thesis using Add_wf [OF assms] bf' by blast
qed

lemma ceil_div_64: "((k::nat) + 63) div 64 = k div 64 + (if k mod 64 = 0 then 0 else 1)"
proof -
  have k: "k + 63 = (k mod 64 + 63) + (k div 64) * 64" by simp
  have r: "k mod 64 < 64" by simp
  have "(k + 63) div 64 = k div 64 + (k mod 64 + 63) div 64"
    by (simp only: k div_mult_self1 [of 64] zero_neq_numeral [symmetric] not_False_eq_True)
  moreover have "(k mod 64 + 63) div 64 = (if k mod 64 = 0 then 0 else 1)"
    using r by (auto simp: div_eq_0_iff intro: div_nat_eqI)
  ultimately show ?thesis by simp
qed

lemma unat_buckets:
  "unat (if bl mod 64 \<noteq> 0 then bl div 64 + 1 else (bl::u64) div 64) = (unat bl + 63) div 64"
proof -
  have d: "unat (bl div 64) = unat bl div 64" by (simp add: unat_div)
  have "unat bl div 64 < 2 ^ 58" using unsigned_less [of bl] by (simp add: div_less_iff_less_mult)
  then have "unat (bl div 64 + 1) = unat bl div 64 + 1" using d by (simp add: unat_word_ariths)
  moreover have "bl mod 64 = 0 \<longleftrightarrow> unat bl mod 64 = 0" by (simp add: unat_mod word_unat_eq_iff)
  ultimately show ?thesis using d by (simp add: ceil_div_64)
qed


text \<open>A \<open>Has\<close> that answers \<open>true\<close> keeps answering \<open>true\<close> when only bits are added.\<close>

lemma Has_True_mono:
  assumes "wf_filter bf" "wf_filter bf'" "set_bits bf \<subseteq> set_bits bf'" "bf' = bf\<lparr>bitstore := store\<rparr>"
    and "Has h bf e = Inr (True, None)"
  shows "Has h bf' e = Inr (True, None)"
proof -
  obtain pos where bp: "bitpositions h e (hashqty bf) (bitlen bf) = Inr (pos, None)"
    using assms(5) by (auto simp: Has_def split: sum.splits prod.splits option.splits)
  have "unat ` set pos \<subseteq> set_bits bf" using Has_ok [OF assms(1) bp] assms(5) by simp
  moreover have "bitpositions h e (hashqty bf') (bitlen bf') = Inr (pos, None)" using bp assms(4) by simp
  ultimately show ?thesis using Has_ok [OF assms(2)] assms(3) by auto
qed

subsection \<open>Concrete runs\<close>

text \<open>\<open>bloom_simps\<close> collects what evaluating the filter on the concrete example needs.\<close>

declare bitlocation_def [bloom_simps] example_filter_def [bloom_simps]

text \<open>The digest of \<open>repeat_last_hasher\<close> depends on the counter byte only, so every
  element has the same four positions in 48 bits.\<close>

lemma bitpositions_example:
  "bitpositions repeat_last_hasher e 4 48 = Inr ([17, 34, 3, 20], None)"
proof -
  have "\<forall>k<unat (4::byte). hash_ok repeat_last_hasher (e @ [word_of_nat k])"
    by (simp add: hash_ok_def repeat_last_hasher_def Let_def)
  then have "bitpositions repeat_last_hasher e 4 48
               = Inr (positions_spec repeat_last_hasher e 4 48, None)"
    unfolding bitpositions_def by (intro bitpositions_loop_ok) simp_all
  moreover have "positions_spec repeat_last_hasher e 4 48 = [17, 34, 3, 20]"
    by (simp add: positions_spec_def hash_pos_def repeat_last_hasher_def upt_rec be_acc_def Let_def)
  ultimately show ?thesis by simp
qed

declare bitpositions_example [bloom_simps]

lemma wf_example_filter: "wf_filter example_filter"
  by (simp add: wf_filter_def example_filter_def)

lemma Add_example:
  "Add repeat_last_hasher example_filter e = Inr (None, example_filter\<lparr>bitstore := [17181048840]\<rparr>)"
  by (simp add: Add_def bloom_simps)

lemma Add_example_again:
  "Add repeat_last_hasher (example_filter\<lparr>bitstore := [17181048840]\<rparr>) e
     = Inr (None, example_filter\<lparr>bitstore := [17181048840]\<rparr>)"
  by (simp add: Add_def bloom_simps)

lemma New_with_params:
  assumes "n \<noteq> 0" "0 < p" "hq p = Some q" "blf n p = Some bl"
  shows "New_with hq blf n p = Some (Inr \<lparr>prob = p, bitlen = bl, hashqty = q, n_elems = n,
                              bitstore = replicate ((unat bl + 63) div 64) 0\<rparr>)"
  using assms by (simp add: New_with_def Let_def unat_buckets [symmetric])

lemma New_params:
  assumes "n \<noteq> 0" "0 < p" "optimalHashQty p = Some q" "optimalBitLen n p = Some bl"
  shows "New n p = Some (Inr \<lparr>prob = p, bitlen = bl, hashqty = q, n_elems = n,
                              bitstore = replicate ((unat bl + 63) div 64) 0\<rparr>)"
  using New_with_params [where hq = optimalHashQty and blf = optimalBitLen, OF assms] by (simp add: New_def)

lemma New_wf:
  assumes "New n p = Some (Inr bf)"
  shows "wf_filter bf"
proof -
  have n: "n \<noteq> 0" and p: "0 < p" using assms by (auto simp: New_def New_with_def split: if_splits)
  obtain q bl where q: "optimalHashQty p = Some q" and bl: "optimalBitLen n p = Some bl"
    using assms n p by (auto simp: New_def New_with_def split: option.splits)
  have bf: "bf = \<lparr>prob = p, bitlen = bl, hashqty = q, n_elems = n,
                  bitstore = replicate ((unat bl + 63) div 64) 0\<rparr>"
    using assms New_params [OF n p q bl] by simp
  have "q \<noteq> 0 \<longrightarrow> bl \<noteq> 0" using optimalHashQty_nonzero [OF q] optimalBitLen_nonzero [OF bl n] by blast
  then show ?thesis unfolding bf by (simp add: wf_filter_iff set_bits_def)
qed

lemma bitpositions_zero_qty: "bitpositions h e 0 bl = Inr ([], None)"
  by (simp add: bitpositions_def bitpositions_loop.simps)

lemma New_returns:
  assumes "n \<noteq> 0" "0 < p" "p \<le> 1" "2 powr -255 \<le> p"
  shows "\<exists>bf. New n p = Some (Inr bf)"
  using optimal_params [OF assms(2,3,4,1)] New_params [OF assms(1,2)] by blast

text \<open>A hasher whose writes never fail and whose digests have at least 8 bytes, as
  SHA-256 (32 bytes) has, makes \<open>bitpositions\<close> return the positions of the
  specification on every filter that is well-formed.\<close>

lemma bitpositions_all_ok:
  assumes "\<forall>b. hash_ok h b" "wf_filter bf"
  shows "bitpositions h e (hashqty bf) (bitlen bf) = Inr (positions_spec h e (hashqty bf) (bitlen bf), None)"
proof (cases "hashqty bf = 0")
  case True
  then show ?thesis by (simp add: bitpositions_zero_qty positions_spec_def)
next
  case False
  then have "bitlen bf \<noteq> 0" using assms(2) by (simp add: wf_filter_def)
  then show ?thesis unfolding bitpositions_def using assms(1) by (intro bitpositions_loop_ok) simp_all
qed

lemma bitpositions_fail_example:
  "bitpositions fail_at_one_hasher [7, 9] 4 48 = Inr ([17, 0, 0, 0], Some ErrWrite)"
proof -
  have ok: "\<forall>j<1. hash_ok fail_at_one_hasher ([7, 9] @ [word_of_nat j])"
    by (simp add: hash_ok_def fail_at_one_hasher_def Let_def)
  have wf: "write_fails fail_at_one_hasher ([7, 9] @ [word_of_nat 1])"
    by (simp add: fail_at_one_hasher_def)
  have r3: "replicate 3 (0::u64) = [0, 0, 0]" by (simp add: numeral_3_eq_3)
  have "take 1 (positions_spec fail_at_one_hasher [7, 9] 4 48) = [17]"
    by (simp add: positions_spec_def hash_pos_def fail_at_one_hasher_def upt_rec be_acc_def Let_def)
  moreover have "bitpositions fail_at_one_hasher [7, 9] 4 48 =
      Inr (take 1 (positions_spec fail_at_one_hasher [7, 9] 4 48) @ replicate (unat (4::byte) - 1) 0, Some ErrWrite)"
    unfolding bitpositions_def using ok wf by (intro bitpositions_loop_write_error) simp_all
  ultimately show ?thesis using r3 by simp
qed

subsection \<open>Properties of the filter\<close>

lemma Add_then_Has:
  assumes "wf_filter bf" and "Add h bf e = Inr (None, bf')"
  shows "Has h bf' e = Inr (True, None)"
proof -
  obtain pos where bp: "bitpositions h e (hashqty bf) (bitlen bf) = Inr (pos, None)"
    and sub: "unat ` set pos \<subseteq> set_bits bf'"
    using Add_None_positions [OF assms] by blast
  obtain store where bf': "bf' = bf\<lparr>bitstore := store\<rparr>" and wf': "wf_filter bf'"
    using Add_step [OF assms] by blast
  have "bitpositions h e (hashqty bf') (bitlen bf') = Inr (pos, None)" using bp bf' by simp
  then show ?thesis using Has_ok [OF wf'] sub by simp
qed

text \<open>C1: No false negatives: on a well-formed filter, once \<open>Add\<close> of an
  element has returned without error, \<open>Has\<close> of the same element returns \<open>true\<close> and
  no error.\<close>

theorem Has_after_Add:
  assumes "wf_filter bf" and "Add h bf e = Inr (None, bf')"
  shows "Has h bf' e = Inr (True, None)"
  using assms by (rule Add_then_Has)

theorem Has_after_Add_witness:
  "wf_filter example_filter
   \<and> Add repeat_last_hasher example_filter [116, 101, 115, 116] = Inr (None, example_filter\<lparr>bitstore := [17181048840]\<rparr>)
   \<and> Has repeat_last_hasher (example_filter\<lparr>bitstore := [17181048840]\<rparr>) [116, 101, 115, 116] = Inr (True, None)"
  using Has_after_Add [OF wf_example_filter Add_example] wf_example_filter Add_example by simp

text \<open>C5: \<open>Add\<close> refines insertion into the set of set bits: on a
  well-formed filter whose positions for the element are computed without error, \<open>Add\<close>
  succeeds without panicking, adds exactly those positions to the set bits, keeps the
  number of buckets and changes no other field.\<close>

theorem Add_refines:
  assumes "wf_filter bf" and "bitpositions h e (hashqty bf) (bitlen bf) = Inr (pos, None)"
  shows "\<exists>bf'. Add h bf e = Inr (None, bf') \<and> set_bits bf' = set_bits bf \<union> unat ` set pos
               \<and> length (bitstore bf') = length (bitstore bf)
               \<and> prob bf' = prob bf \<and> bitlen bf' = bitlen bf \<and> hashqty bf' = hashqty bf \<and> n_elems bf' = n_elems bf"
proof -
  obtain store where "Add h bf e = Inr (None, bf\<lparr>bitstore := store\<rparr>)" "length store = length (bitstore bf)"
    "bits_of store = bits_of (bitstore bf) \<union> unat ` set pos"
    using Add_effect [OF assms] by blast
  then show ?thesis by (intro exI [of _ "bf\<lparr>bitstore := store\<rparr>"]) (simp add: set_bits_def)
qed

theorem Add_refines_witness:
  "wf_filter example_filter
   \<and> bitpositions repeat_last_hasher [116, 101, 115, 116] (hashqty example_filter) (bitlen example_filter)
       = Inr ([17, 34, 3, 20], None)
   \<and> (\<exists>bf'. Add repeat_last_hasher example_filter [116, 101, 115, 116] = Inr (None, bf')
            \<and> set_bits bf' = set_bits example_filter \<union> unat ` set [17, 34, 3, 20 :: u64]
            \<and> length (bitstore bf') = length (bitstore example_filter)
            \<and> prob bf' = prob example_filter \<and> bitlen bf' = bitlen example_filter
            \<and> hashqty bf' = hashqty example_filter \<and> n_elems bf' = n_elems example_filter)"
proof -
  have bp: "bitpositions repeat_last_hasher [116, 101, 115, 116] (hashqty example_filter) (bitlen example_filter)
              = Inr ([17, 34, 3, 20], None)"
    by (simp add: example_filter_def bitpositions_example)
  show ?thesis using Add_refines [OF wf_example_filter bp] wf_example_filter bp by blast
qed

text \<open>C6: \<open>Has\<close> refines membership of all positions in the set of set
  bits: on a well-formed filter it panics only where \<open>bitpositions\<close> panics, returns
  \<open>false\<close> with the error of \<open>bitpositions\<close>, and otherwise returns whether every
  position of the element is set.\<close>

theorem Has_refines:
  assumes "wf_filter bf"
  shows "Has h bf e =
           (case bitpositions h e (hashqty bf) (bitlen bf) of
              Inl pn \<Rightarrow> Inl pn
            | Inr (pos, Some err) \<Rightarrow> Inr (False, Some err)
            | Inr (pos, None) \<Rightarrow> Inr (unat ` set pos \<subseteq> set_bits bf, None))"
proof (cases "bitpositions h e (hashqty bf) (bitlen bf)")
  case (Inl pn)
  then show ?thesis by (simp add: Has_def)
next
  case (Inr r)
  obtain pos err where r: "r = (pos, err)" by (cases r)
  show ?thesis
  proof (cases err)
    case None
    then show ?thesis using Has_ok [OF assms] Inr r by simp
  next
    case (Some e')
    then show ?thesis using Inr r by (simp add: Has_def)
  qed
qed

theorem Has_refines_witness:
  "wf_filter example_filter
   \<and> Has repeat_last_hasher example_filter [116, 101, 115, 116] = Inr (False, None)"
proof -
  have bp: "bitpositions repeat_last_hasher [116, 101, 115, 116] (hashqty example_filter) (bitlen example_filter)
              = Inr ([17, 34, 3, 20], None)"
    by (simp add: example_filter_def bitpositions_example)
  have "\<not> unat ` set [17, 34, 3, 20 :: u64] \<subseteq> set_bits example_filter"
    by (simp add: set_bits_def example_filter_def mem_bits_of)
  then show ?thesis using Has_refines [OF wf_example_filter, of repeat_last_hasher "[116, 101, 115, 116]"] bp
      wf_example_filter by simp
qed

text \<open>C24: Adding an element twice leaves the filter as adding it once.\<close>

theorem Add_idempotent:
  assumes "wf_filter bf" and "Add h bf e = Inr (None, bf')"
  shows "Add h bf' e = Inr (None, bf')"
proof -
  obtain pos store where bp: "bitpositions h e (hashqty bf) (bitlen bf) = Inr (pos, None)"
    and ap: "add_positions (bitstore bf) pos = Inr store" and bf': "bf' = bf\<lparr>bitstore := store\<rparr>"
    using assms(2) by (rule Add_None)
  obtain s1 where s1: "add_positions (bitstore bf) pos = Inr s1" "length s1 = length (bitstore bf)"
    "bits_of s1 = bits_of (bitstore bf) \<union> unat ` set pos"
    using add_positions_ok [OF positions_fit(1) [OF assms(1) bp]] by blast
  have wf': "wf_filter bf'" using assms by (rule Add_wf)
  have bp': "bitpositions h e (hashqty bf') (bitlen bf') = Inr (pos, None)" using bp bf' by simp
  obtain s2 where s2: "Add h bf' e = Inr (None, bf'\<lparr>bitstore := s2\<rparr>)" "length s2 = length (bitstore bf')"
    "bits_of s2 = bits_of (bitstore bf') \<union> unat ` set pos"
    using Add_effect [OF wf' bp'] by blast
  have "store = s1" using ap s1(1) by simp
  then have "bits_of s2 = bits_of (bitstore bf')" using s1(3) s2(3) bf' by auto
  then have "s2 = bitstore bf'" by (rule bits_of_eqI [OF s2(2)])
  then show ?thesis using s2(1) by simp
qed

theorem Add_idempotent_witness:
  "wf_filter example_filter
   \<and> Add repeat_last_hasher example_filter [116, 101, 115, 116] = Inr (None, example_filter\<lparr>bitstore := [17181048840]\<rparr>)
   \<and> Add repeat_last_hasher (example_filter\<lparr>bitstore := [17181048840]\<rparr>) [116, 101, 115, 116]
       = Inr (None, example_filter\<lparr>bitstore := [17181048840]\<rparr>)"
  using Add_idempotent [OF wf_example_filter Add_example] wf_example_filter Add_example by simp

text \<open>C25: The order of two successful additions does not matter: adding
  \<open>e1\<close> then \<open>e2\<close> to a well-formed filter gives the filter that adding \<open>e2\<close> then
  \<open>e1\<close> gives, and the second order succeeds as well.\<close>

theorem Add_commute:
  assumes "wf_filter bf" and "Add h bf e1 = Inr (None, b1)" and "Add h b1 e2 = Inr (None, b12)"
  shows "\<exists>b2. Add h bf e2 = Inr (None, b2) \<and> Add h b2 e1 = Inr (None, b12)"
proof -
  obtain p1 s1 where bp1: "bitpositions h e1 (hashqty bf) (bitlen bf) = Inr (p1, None)"
    and ap1: "add_positions (bitstore bf) p1 = Inr s1" and b1: "b1 = bf\<lparr>bitstore := s1\<rparr>"
    using assms(2) by (rule Add_None)
  have wf1: "wf_filter b1" using assms(1,2) by (rule Add_wf)
  obtain p2 s12 where bp2': "bitpositions h e2 (hashqty b1) (bitlen b1) = Inr (p2, None)"
    and ap12: "add_positions (bitstore b1) p2 = Inr s12" and b12: "b12 = b1\<lparr>bitstore := s12\<rparr>"
    using assms(3) by (rule Add_None)
  have bp2: "bitpositions h e2 (hashqty bf) (bitlen bf) = Inr (p2, None)" using bp2' b1 by simp
  obtain t1 where t1: "add_positions (bitstore bf) p1 = Inr t1" "length t1 = length (bitstore bf)"
    "bits_of t1 = bits_of (bitstore bf) \<union> unat ` set p1"
    using add_positions_ok [OF positions_fit(1) [OF assms(1) bp1]] by blast
  obtain t12 where t12: "add_positions (bitstore b1) p2 = Inr t12" "length t12 = length (bitstore b1)"
    "bits_of t12 = bits_of (bitstore b1) \<union> unat ` set p2"
    using add_positions_ok [OF positions_fit(1) [OF wf1 bp2']] by blast
  obtain u2 where u2: "Add h bf e2 = Inr (None, bf\<lparr>bitstore := u2\<rparr>)" "length u2 = length (bitstore bf)"
    "bits_of u2 = bits_of (bitstore bf) \<union> unat ` set p2"
    using Add_effect [OF assms(1) bp2] by blast
  define b2 where "b2 = bf\<lparr>bitstore := u2\<rparr>"
  have wf2: "wf_filter b2" using assms(1) u2(1) unfolding b2_def by (rule Add_wf)
  have bp1': "bitpositions h e1 (hashqty b2) (bitlen b2) = Inr (p1, None)" using bp1 by (simp add: b2_def)
  obtain u21 where u21: "Add h b2 e1 = Inr (None, b2\<lparr>bitstore := u21\<rparr>)" "length u21 = length (bitstore b2)"
    "bits_of u21 = bits_of (bitstore b2) \<union> unat ` set p1"
    using Add_effect [OF wf2 bp1'] by blast
  have "s1 = t1" "s12 = t12" using ap1 t1(1) ap12 t12(1) by simp_all
  then have "length u21 = length s12" "bits_of u21 = bits_of s12"
    using t1 t12 u2 u21 b1 by (auto simp: b2_def)
  then have "u21 = s12" by (rule bits_of_eqI)
  then have "b2\<lparr>bitstore := u21\<rparr> = b12" using b1 b12 by (simp add: b2_def)
  then show ?thesis using u2(1) u21(1) unfolding b2_def by blast
qed

theorem Add_commute_witness:
  "wf_filter example_filter
   \<and> Add repeat_last_hasher example_filter [116, 101, 115, 116] = Inr (None, example_filter\<lparr>bitstore := [17181048840]\<rparr>)
   \<and> Add repeat_last_hasher (example_filter\<lparr>bitstore := [17181048840]\<rparr>) [98, 111, 98]
       = Inr (None, example_filter\<lparr>bitstore := [17181048840]\<rparr>)
   \<and> (\<exists>b2. Add repeat_last_hasher example_filter [98, 111, 98] = Inr (None, b2)
           \<and> Add repeat_last_hasher b2 [116, 101, 115, 116] = Inr (None, example_filter\<lparr>bitstore := [17181048840]\<rparr>))"
proof -
  show ?thesis using Add_commute [OF wf_example_filter Add_example Add_example_again]
      wf_example_filter Add_example Add_example_again by blast
qed

text \<open>C11: For every positive element count and every probability in
  \<open>[2 ^ -255, 1]\<close>, \<open>New\<close> returns a filter (the float conversions are all in range) that is
  well-formed and empty, stores the arguments, and takes its bit length and hash count from
  \<open>optimalBitLen\<close> and \<open>optimalHashQty\<close>.\<close>

theorem New_ok:
  assumes "n \<noteq> 0" "0 < p" "p \<le> 1" "2 powr -255 \<le> p"
  shows "\<exists>bf. New n p = Some (Inr bf) \<and> wf_filter bf \<and> set_bits bf = {} \<and> prob bf = p \<and> n_elems bf = n
              \<and> optimalHashQty p = Some (hashqty bf) \<and> optimalBitLen n p = Some (bitlen bf)"
proof -
  obtain q bl where q: "optimalHashQty p = Some q" and bl: "optimalBitLen n p = Some bl"
    and qb: "q \<noteq> 0 \<longrightarrow> bl \<noteq> 0"
    using optimal_params [OF assms(2,3,4,1)] by blast
  let ?bf = "\<lparr>prob = p, bitlen = bl, hashqty = q, n_elems = n,
              bitstore = replicate ((unat bl + 63) div 64) (0::u64)\<rparr>"
  have "wf_filter ?bf" using qb by (simp add: wf_filter_iff set_bits_def)
  then show ?thesis using New_params [OF assms(1,2) q bl] q bl by (intro exI [of _ ?bf]) (simp add: set_bits_def)
qed

theorem New_ok_witness:
  "\<exists>bf. New 1 (1 / 100) = Some (Inr bf) \<and> wf_filter bf \<and> set_bits bf = {} \<and> prob bf = 1 / 100 \<and> n_elems bf = 1
        \<and> optimalHashQty (1 / 100) = Some (hashqty bf) \<and> optimalBitLen 1 (1 / 100) = Some (bitlen bf)"
  using New_ok [of 1 "1 / 100"] two_powr_neg255_le by simp

text \<open>C12: \<open>New\<close> returns an error exactly in the two cases the code checks
  first: \<open>ErrZeroElements\<close> for zero elements, and otherwise \<open>ErrProbability\<close> for a
  probability that is not positive.\<close>

theorem New_errors:
  "(\<exists>bf. New n p = Some (Inl err)) \<longleftrightarrow>
     (if n = 0 then err = ErrZeroElements else p \<le> 0 \<and> err = ErrProbability)"
  by (auto simp: New_def New_with_def Let_def split: option.splits)

text \<open>C30: Probability 1 is accepted: \<open>New\<close> builds a filter with no
  hash functions and no bits, on which \<open>Has\<close> answers \<open>true\<close> for every element and every
  hasher.\<close>

theorem New_prob_one:
  assumes "n \<noteq> 0"
  shows "New n 1 = Some (Inr \<lparr>prob = 1, bitlen = 0, hashqty = 0, n_elems = n, bitstore = []\<rparr>)
         \<and> (\<forall>h e. Has h \<lparr>prob = 1, bitlen = 0, hashqty = 0, n_elems = n, bitstore = []\<rparr> e = Inr (True, None))"
  using New_params [OF assms _ optimalHashQty_one optimalBitLen_prob_one]
  by (simp add: Has_def bitpositions_zero_qty)

theorem New_prob_one_witness:
  "New 1 1 = Some (Inr \<lparr>prob = 1, bitlen = 0, hashqty = 0, n_elems = 1, bitstore = []\<rparr>)
   \<and> Has repeat_last_hasher \<lparr>prob = 1, bitlen = 0, hashqty = 0, n_elems = 1, bitstore = []\<rparr> [116, 101, 115, 116]
       = Inr (True, None)"
  using New_prob_one [of 1] by simp

text \<open>C20: When computing the positions fails, \<open>Add\<close> returns the
  error and leaves the filter unchanged, and \<open>Has\<close> of the same element on that filter
  returns \<open>false\<close> with the same error.\<close>

theorem Add_error_unchanged:
  assumes "Add h bf e = Inr (Some err, bf')"
  shows "bf' = bf \<and> Has h bf e = Inr (False, Some err)"
  using Add_cases [OF assms] by (auto simp: Has_def)

theorem Add_error_unchanged_witness:
  "Add fail_at_one_hasher example_filter [7, 9] = Inr (Some ErrWrite, example_filter)
   \<and> Has fail_at_one_hasher example_filter [7, 9] = Inr (False, Some ErrWrite)"
proof -
  have a: "Add fail_at_one_hasher example_filter [7, 9] = Inr (Some ErrWrite, example_filter)"
    using bitpositions_fail_example by (simp add: Add_def example_filter_def)
  show ?thesis using Add_error_unchanged [OF a] a by simp
qed

text \<open>C19: The panicking wrappers keep the guarantee: on a
  well-formed filter, if \<open>MustAdd\<close> returns without panicking then \<open>MustHave\<close> of the
  same element on the result returns \<open>true\<close> without panicking.\<close>

theorem MustHave_after_MustAdd:
  assumes "wf_filter bf" and "MustAdd h bf e = Inr bf'"
  shows "MustHave h bf' e = Inr True"
proof -
  have "Add h bf e = Inr (None, bf')"
    using assms(2) by (auto simp: MustAdd_def split: sum.splits prod.splits option.splits)
  then have "Has h bf' e = Inr (True, None)"
    by (rule Add_then_Has [OF assms(1)])
  then show ?thesis by (simp add: MustHave_def)
qed

theorem MustHave_after_MustAdd_witness:
  "wf_filter example_filter
   \<and> MustAdd repeat_last_hasher example_filter [116, 101, 115, 116] = Inr (example_filter\<lparr>bitstore := [17181048840]\<rparr>)
   \<and> MustHave repeat_last_hasher (example_filter\<lparr>bitstore := [17181048840]\<rparr>) [116, 101, 115, 116] = Inr True"
proof -
  have a: "MustAdd repeat_last_hasher example_filter [116, 101, 115, 116] = Inr (example_filter\<lparr>bitstore := [17181048840]\<rparr>)"
    by (simp add: MustAdd_def Add_example)
  show ?thesis using MustHave_after_MustAdd [OF wf_example_filter a] wf_example_filter a by simp
qed

end
