(* ===== verification/Lifecycle.thy ===== *)
theory Lifecycle
  imports Bloom_Filter
begin

text \<open>
  A client's view of one filter over its lifetime, as \<open>Example\<close> and
  \<open>Example_optimistic\<close> in \<open>examples_test.go\<close> use it: the filter is built by \<open>New\<close> and
  then receives a sequence of \<open>Add\<close> and \<open>Has\<close> calls. \<open>op\<close> names a call, \<open>answer\<close>
  its result, \<open>step\<close> performs one call, and \<open>run\<close> performs a sequence of calls in
  order, stopping at the first panic (a Go panic aborts the goroutine). \<open>reachable\<close>
  is the set of filters a program can hold: those \<open>New\<close> returns, closed under every
  \<open>Add\<close> that returns, failed or not (\<open>Has\<close> does not change the filter).
\<close>

datatype op = OpAdd bytes | OpHas bytes

datatype answer = AddDone "error option" | HasDone bool "error option"

definition step :: "hasher \<Rightarrow> Filter \<Rightarrow> op \<Rightarrow> panic + (answer \<times> Filter)" where
  "step h bf c =
     (case c of
        OpAdd e \<Rightarrow> (case Add h bf e of Inl pn \<Rightarrow> Inl pn | Inr (r, bf') \<Rightarrow> Inr (AddDone r, bf'))
      | OpHas e \<Rightarrow> (case Has h bf e of Inl pn \<Rightarrow> Inl pn | Inr (b, r) \<Rightarrow> Inr (HasDone b r, bf)))"

fun run :: "hasher \<Rightarrow> Filter \<Rightarrow> op list \<Rightarrow> panic + (answer list \<times> Filter)" where
  "run h bf [] = Inr ([], bf)"
| "run h bf (c # cs) =
     (case step h bf c of
        Inl pn \<Rightarrow> Inl pn
      | Inr (a, bf') \<Rightarrow>
          (case run h bf' cs of
             Inl pn \<Rightarrow> Inl pn
           | Inr (as, bf'') \<Rightarrow> Inr (a # as, bf'')))"

inductive reachable :: "hasher \<Rightarrow> Filter \<Rightarrow> bool" for h where
  new: "New n p = Some (Inr bf) \<Longrightarrow> reachable h bf"
| add: "reachable h bf \<Longrightarrow> Add h bf e = Inr (r, bf') \<Longrightarrow> reachable h bf'"

subsection \<open>Steps and runs\<close>

lemma step_frame:
  assumes "wf_filter bf" "step h bf c = Inr (a, bf')"
  shows "wf_filter bf' \<and> set_bits bf \<subseteq> set_bits bf' \<and> (\<exists>store. bf' = bf\<lparr>bitstore := store\<rparr>)"
proof (cases c)
  case (OpAdd e)
  then obtain r where "Add h bf e = Inr (r, bf')"
    using assms(2) by (auto simp: step_def split: sum.splits prod.splits)
  then show ?thesis using Add_step [OF assms(1)] by blast
next
  case (OpHas e)
  then have "bf' = bf" using assms(2) by (auto simp: step_def split: sum.splits prod.splits)
  then show ?thesis using assms(1) Filter_bitstore_self by blast
qed

lemma run_length: "run h bf cs = Inr (as, bf') \<Longrightarrow> length as = length cs"
  by (induction cs arbitrary: bf as) (auto split: sum.splits prod.splits)

lemma run_frame:
  "wf_filter bf \<Longrightarrow> run h bf cs = Inr (as, bf') \<Longrightarrow>
   wf_filter bf' \<and> set_bits bf \<subseteq> set_bits bf' \<and> (\<exists>store. bf' = bf\<lparr>bitstore := store\<rparr>)"
proof (induction cs arbitrary: bf as)
  case Nil
  then show ?case using Filter_bitstore_self by auto
next
  case (Cons c cs)
  obtain a b1 as' where s: "step h bf c = Inr (a, b1)" and r: "run h b1 cs = Inr (as', bf')"
    using Cons.prems(2) by (auto split: sum.splits prod.splits)
  have f1: "wf_filter b1 \<and> set_bits bf \<subseteq> set_bits b1 \<and> (\<exists>store. b1 = bf\<lparr>bitstore := store\<rparr>)"
    using step_frame [OF Cons.prems(1) s] .
  then have "wf_filter bf' \<and> set_bits b1 \<subseteq> set_bits bf' \<and> (\<exists>store. bf' = b1\<lparr>bitstore := store\<rparr>)"
    using Cons.IH r by blast
  then show ?case using f1 by auto
qed

lemma run_append:
  "run h bf (xs @ ys) =
     (case run h bf xs of
        Inl pn \<Rightarrow> Inl pn
      | Inr (as, bf') \<Rightarrow>
          (case run h bf' ys of Inl pn \<Rightarrow> Inl pn | Inr (bs, bf'') \<Rightarrow> Inr (as @ bs, bf'')))"
  by (induction xs arbitrary: bf) (auto split: sum.splits prod.splits)

lemma run_split:
  assumes "run h bf (xs @ c # ys) = Inr (as, bf')"
  obtains as1 b1 a b2 as2 where "run h bf xs = Inr (as1, b1)" "step h b1 c = Inr (a, b2)"
    "run h b2 ys = Inr (as2, bf')" "as = as1 @ a # as2" "length as1 = length xs"
  using assms run_length by (auto simp: run_append split: sum.splits prod.splits)

lemma step_Has_True:
  "step h bf (OpHas e) = Inr (a, bf') \<Longrightarrow> Has h bf e = Inr (True, None) \<Longrightarrow> a = HasDone True None"
  by (simp add: step_def)

lemma step_AddDone_None:
  "step h bf (OpAdd e) = Inr (AddDone None, bf') \<Longrightarrow> Add h bf e = Inr (None, bf')"
  by (auto simp: step_def split: sum.splits prod.splits)

lemma step_HasDone_True:
  "step h bf (OpHas e) = Inr (HasDone True None, bf') \<Longrightarrow> Has h bf e = Inr (True, None) \<and> bf' = bf"
  by (auto simp: step_def split: sum.splits prod.splits)

text \<open>After the call at position \<open>length xs\<close> has made \<open>Has\<close> of \<open>e\<close> true, a \<open>Has\<close> of
  \<open>e\<close> at the end of the run answers \<open>true\<close>.\<close>

lemma run_Has_persists:
  assumes "wf_filter b1" "step h b1 c = Inr (a, b2)" "wf_filter b2" "set_bits b1 \<subseteq> set_bits b2"
    "\<exists>store. b2 = b1\<lparr>bitstore := store\<rparr>" "Has h b2 e = Inr (True, None)"
    "run h b2 (ys @ [OpHas e]) = Inr (as2, bf')"
  shows "last as2 = HasDone True None"
proof -
  obtain as3 b3 a' b4 as4 where r3: "run h b2 ys = Inr (as3, b3)" and s: "step h b3 (OpHas e) = Inr (a', b4)"
    and r4: "run h b4 [] = Inr (as4, bf')" and as2: "as2 = as3 @ a' # as4"
    using assms(7) by (rule run_split)
  have as4: "as4 = []" using r4 by simp
  obtain store where f3: "wf_filter b3" "set_bits b2 \<subseteq> set_bits b3" "b3 = b2\<lparr>bitstore := store\<rparr>"
    using run_frame [OF assms(3) r3] by blast
  have "Has h b3 e = Inr (True, None)" using Has_True_mono [OF assms(3) f3 assms(6)] .
  then have "a' = HasDone True None" using s by (rule step_Has_True [rotated])
  then show ?thesis using as2 as4 by simp
qed

lemma repeat_last_hasher_ok: "\<forall>b. hash_ok repeat_last_hasher b"
  by (simp add: hash_ok_def repeat_last_hasher_def Let_def)

lemma New_1_1:
  "New 1 1 = Some (Inr \<lparr>prob = 1, bitlen = 0, hashqty = 0, n_elems = 1, bitstore = []\<rparr>)"
  using New_params [OF _ _ optimalHashQty_one optimalBitLen_prob_one, of 1] by simp

lemma Has_example:
  "Has repeat_last_hasher (example_filter\<lparr>bitstore := [17181048840]\<rparr>) e = Inr (True, None)"
  by (simp add: Has_def bloom_simps)

text \<open>With a hasher that never fails, \<open>Add\<close> of any element to a well-formed filter
  succeeds and \<open>Has\<close> of it on the result answers \<open>true\<close>; \<open>Has\<close> never panics.\<close>

lemma Add_Has_all_ok:
  assumes "\<forall>b. hash_ok h b" "wf_filter bf"
  shows "\<exists>bf'. Add h bf e = Inr (None, bf') \<and> Has h bf' e = Inr (True, None)"
proof -
  obtain store where a: "Add h bf e = Inr (None, bf\<lparr>bitstore := store\<rparr>)"
    using Add_effect [OF assms(2) bitpositions_all_ok [OF assms]] by blast
  then show ?thesis using Add_then_Has [OF assms(2) a] by blast
qed

lemma Has_all_ok:
  assumes "\<forall>b. hash_ok h b" "wf_filter bf"
  shows "\<exists>r. Has h bf e = Inr (r, None)"
  using Has_ok [OF assms(2) bitpositions_all_ok [OF assms]] by blast

lemma step_all_ok:
  assumes "\<forall>b. hash_ok h b" "wf_filter bf"
  shows "\<exists>a bf'. step h bf c = Inr (a, bf')"
proof (cases c)
  case (OpAdd e)
  then show ?thesis using Add_Has_all_ok [OF assms, of e] by (auto simp: step_def)
next
  case (OpHas e)
  then show ?thesis using Has_all_ok [OF assms, of e] by (auto simp: step_def)
qed

text \<open>Adding a list of elements with a hasher that never fails succeeds at every call,
  and afterwards \<open>Has\<close> of each of them answers \<open>true\<close>.\<close>

lemma run_adds:
  assumes "\<forall>b. hash_ok h b"
  shows "wf_filter bf \<Longrightarrow>
         \<exists>bf'. run h bf (map OpAdd es) = Inr (replicate (length es) (AddDone None), bf') \<and> wf_filter bf'
               \<and> (\<exists>s. bf' = bf\<lparr>bitstore := s\<rparr>) \<and> (\<forall>e\<in>set es. Has h bf' e = Inr (True, None))"
proof (induction es arbitrary: bf)
  case Nil
  then show ?case using Filter_bitstore_self by simp
next
  case (Cons e es)
  obtain b1 where a: "Add h bf e = Inr (None, b1)" and h1: "Has h b1 e = Inr (True, None)"
    using Add_Has_all_ok [OF assms Cons.prems] by blast
  obtain s1 where f1: "wf_filter b1" "set_bits bf \<subseteq> set_bits b1" "b1 = bf\<lparr>bitstore := s1\<rparr>"
    using Add_step [OF Cons.prems a] by blast
  obtain bf' s where r: "run h b1 (map OpAdd es) = Inr (replicate (length es) (AddDone None), bf')"
    and wf': "wf_filter bf'" and fr: "bf' = b1\<lparr>bitstore := s\<rparr>" and hs: "\<forall>e\<in>set es. Has h bf' e = Inr (True, None)"
    using Cons.IH [OF f1(1)] by blast
  have "set_bits b1 \<subseteq> set_bits bf'" using run_frame [OF f1(1) r] by blast
  then have "Has h bf' e = Inr (True, None)" using Has_True_mono [OF f1(1) wf' _ fr h1] by blast
  moreover have "step h bf (OpAdd e) = Inr (AddDone None, b1)" using a by (simp add: step_def)
  ultimately show ?case using r wf' fr f1(3) hs by auto
qed

lemma run_hass:
  "(\<forall>e\<in>set es. Has h bf e = Inr (True, None)) \<Longrightarrow>
   run h bf (map OpHas es) = Inr (replicate (length es) (HasDone True None), bf)"
  by (induction es) (simp_all add: step_def)

subsection \<open>Properties of the lifecycle\<close>

text \<open>C4: Every filter a program can hold is well-formed: \<open>New\<close> returns
  only well-formed filters, for every argument it accepts, and every \<open>Add\<close> that returns
  preserves well-formedness, whether it succeeded or returned an error.\<close>

theorem reachable_wf:
  assumes "reachable h bf"
  shows "wf_filter bf"
  using assms
proof (induction rule: reachable.induct)
  case (new n p bf)
  then show ?case by (rule New_wf)
next
  case (add bf e r bf')
  then show ?case using Add_step by blast
qed

theorem reachable_wf_witness:
  "reachable repeat_last_hasher \<lparr>prob = 1, bitlen = 0, hashqty = 0, n_elems = 1, bitstore = []\<rparr>
   \<and> wf_filter \<lparr>prob = 1, bitlen = 0, hashqty = 0, n_elems = 1, bitstore = []\<rparr>"
proof -
  have r: "reachable repeat_last_hasher \<lparr>prob = 1, bitlen = 0, hashqty = 0, n_elems = 1, bitstore = []\<rparr>"
    using New_1_1 by (rule reachable.new)
  show ?thesis using reachable_wf [OF r] r by simp
qed

text \<open>C2: No false negatives over a whole run: in any sequence of
  \<open>Add\<close> and \<open>Has\<close> calls on a well-formed filter that does not panic, if the \<open>Add\<close> of
  an element returned no error, a \<open>Has\<close> of that element after any further calls answers
  \<open>true\<close> with no error.\<close>

theorem run_no_false_negatives:
  assumes "wf_filter bf"
    and "run h bf (xs @ OpAdd e # ys @ [OpHas e]) = Inr (as, bf')"
    and "as ! length xs = AddDone None"
  shows "last as = HasDone True None"
proof -
  obtain as1 b1 a b2 as2 where r1: "run h bf xs = Inr (as1, b1)" and s: "step h b1 (OpAdd e) = Inr (a, b2)"
    and r2: "run h b2 (ys @ [OpHas e]) = Inr (as2, bf')" and as: "as = as1 @ a # as2" and l: "length as1 = length xs"
    using assms(2) by (rule run_split)
  have "a = AddDone None" using assms(3) as l [symmetric] by simp
  then have add: "Add h b1 e = Inr (None, b2)" using s by (simp add: step_AddDone_None)
  have wf1: "wf_filter b1" using run_frame [OF assms(1) r1] by blast
  have f2: "wf_filter b2 \<and> set_bits b1 \<subseteq> set_bits b2 \<and> (\<exists>store. b2 = b1\<lparr>bitstore := store\<rparr>)"
    using step_frame [OF wf1 s] .
  have "Has h b2 e = Inr (True, None)" using Add_then_Has [OF wf1 add] .
  then have "last as2 = HasDone True None" using run_Has_persists [OF wf1 s _ _ _ _ r2] f2 by blast
  moreover have "as2 \<noteq> []" using run_length [OF r2] by auto
  ultimately show ?thesis using as by simp
qed

theorem run_no_false_negatives_witness:
  "wf_filter example_filter
   \<and> run repeat_last_hasher example_filter ([] @ OpAdd [116, 101, 115, 116] # [OpAdd [98, 111, 98]] @ [OpHas [116, 101, 115, 116]])
       = Inr ([AddDone None, AddDone None, HasDone True None], example_filter\<lparr>bitstore := [17181048840]\<rparr>)
   \<and> [AddDone None, AddDone None, HasDone True None] ! length ([] :: op list) = AddDone None
   \<and> last [AddDone None, AddDone None, HasDone True None] = HasDone True None"
proof -
  have r: "run repeat_last_hasher example_filter ([] @ OpAdd [116, 101, 115, 116] # [OpAdd [98, 111, 98]] @ [OpHas [116, 101, 115, 116]])
       = Inr ([AddDone None, AddDone None, HasDone True None], example_filter\<lparr>bitstore := [17181048840]\<rparr>)"
    by (simp add: step_def Add_example Add_example_again Has_example)
  show ?thesis using run_no_false_negatives [OF wf_example_filter r] wf_example_filter r by simp
qed

text \<open>C22: Answers of \<open>Has\<close> only turn from \<open>false\<close> to \<open>true\<close>: in a run on
  a well-formed filter that does not panic, once \<open>Has\<close> of an element has answered
  \<open>true\<close> without error, every later \<open>Has\<close> of it answers \<open>true\<close> as well.\<close>

theorem run_Has_stable:
  assumes "wf_filter bf"
    and "run h bf (xs @ OpHas e # ys @ [OpHas e]) = Inr (as, bf')"
    and "as ! length xs = HasDone True None"
  shows "last as = HasDone True None"
proof -
  obtain as1 b1 a b2 as2 where r1: "run h bf xs = Inr (as1, b1)" and s: "step h b1 (OpHas e) = Inr (a, b2)"
    and r2: "run h b2 (ys @ [OpHas e]) = Inr (as2, bf')" and as: "as = as1 @ a # as2" and l: "length as1 = length xs"
    using assms(2) by (rule run_split)
  have "a = HasDone True None" using assms(3) as l [symmetric] by simp
  then have has: "Has h b1 e = Inr (True, None)" and b2: "b2 = b1" using s step_HasDone_True by blast+
  have wf1: "wf_filter b1" using run_frame [OF assms(1) r1] by blast
  have "last as2 = HasDone True None"
    using run_Has_persists [OF wf1 s _ _ _ _ r2] wf1 has b2 Filter_bitstore_self by blast
  moreover have "as2 \<noteq> []" using run_length [OF r2] by auto
  ultimately show ?thesis using as by simp
qed

theorem run_Has_stable_witness:
  "wf_filter example_filter
   \<and> run repeat_last_hasher example_filter ([OpAdd [116, 101, 115, 116]] @ OpHas [116, 101, 115, 116] # [OpAdd [98, 111, 98]] @ [OpHas [116, 101, 115, 116]])
       = Inr ([AddDone None, HasDone True None, AddDone None, HasDone True None], example_filter\<lparr>bitstore := [17181048840]\<rparr>)
   \<and> [AddDone None, HasDone True None, AddDone None, HasDone True None] ! length [OpAdd [116, 101, 115, 116]] = HasDone True None
   \<and> last [AddDone None, HasDone True None, AddDone None, HasDone True None] = HasDone True None"
proof -
  have r: "run repeat_last_hasher example_filter ([OpAdd [116, 101, 115, 116]] @ OpHas [116, 101, 115, 116] # [OpAdd [98, 111, 98]] @ [OpHas [116, 101, 115, 116]])
       = Inr ([AddDone None, HasDone True None, AddDone None, HasDone True None], example_filter\<lparr>bitstore := [17181048840]\<rparr>)"
    by (simp add: step_def Add_example Add_example_again Has_example)
  show ?thesis using run_Has_stable [OF wf_example_filter r] wf_example_filter r by simp
qed

text \<open>C14: Progress: with a hasher that never fails (as SHA-256), every
  sequence of \<open>Add\<close> and \<open>Has\<close> calls on a well-formed filter runs to its end without
  panicking and gives one answer per call.\<close>

theorem run_progress:
  assumes "\<forall>b. hash_ok h b" and "wf_filter bf"
  shows "\<exists>as bf'. run h bf cs = Inr (as, bf') \<and> length as = length cs"
  using assms(2)
proof (induction cs arbitrary: bf)
  case Nil
  then show ?case by simp
next
  case (Cons c cs)
  obtain a b1 where s: "step h bf c = Inr (a, b1)" using step_all_ok [OF assms(1) Cons.prems] by blast
  have "wf_filter b1" using step_frame [OF Cons.prems s] by blast
  then obtain as b2 where "run h b1 cs = Inr (as, b2)" "length as = length cs" using Cons.IH by blast
  then show ?case using s by simp
qed

theorem run_progress_witness:
  "run repeat_last_hasher example_filter [OpAdd [1], OpHas [2], OpAdd [3]]
     = Inr ([AddDone None, HasDone True None, AddDone None], example_filter\<lparr>bitstore := [17181048840]\<rparr>)
   \<and> (\<exists>as bf'. run repeat_last_hasher example_filter [OpAdd [1], OpHas [2], OpAdd [3]] = Inr (as, bf')
        \<and> length as = length [OpAdd [1], OpHas [2], OpAdd [3 :: byte]])"
proof -
  have r: "run repeat_last_hasher example_filter [OpAdd [1], OpHas [2], OpAdd [3]]
     = Inr ([AddDone None, HasDone True None, AddDone None], example_filter\<lparr>bitstore := [17181048840]\<rparr>)"
    by (simp add: step_def Add_example Add_example_again Has_example)
  show ?thesis using run_progress [OF repeat_last_hasher_ok wf_example_filter, of "[OpAdd [1], OpHas [2], OpAdd [3]]"] r
    by blast
qed

end
