(* ===== verification/Sha256.thy ===== *)
theory Sha256
  imports Bloom_Prelude
begin

text \<open>
  SHA-256 as \<open>crypto/sha256\<close> computes it (FIPS 180-4; the names of the round functions
  are those of RFC 6234), which \<open>hash\<close> of \<open>bloom.go\<close> calls through
  \<open>sha256.New()\<close>, \<open>h.Write(b)\<close> and \<open>h.Sum(nil)\<close>. It is Go library code, not
  code of this repository, and is modelled from the standard and the library's padding
  (\<open>digest.checkSum\<close>): the message gets the byte \<open>0x80\<close>, zeros up to 56 bytes
  modulo 64, and its length in bits as a big-endian \<open>uint64\<close>; the padded message is read
  as big-endian 32-bit words in blocks of 16, and each block is compressed into the eight
  state words. The message schedule is computed with a sliding window of the last 16
  words. Everything is executable: the digests of the test inputs are evaluated by
  \<open>code_simp\<close> in \<open>Package_Tests\<close>.
\<close>

definition K256 :: "u32 list" where
  "K256 = [0x428A2F98, 0x71374491, 0xB5C0FBCF, 0xE9B5DBA5,
     0x3956C25B, 0x59F111F1, 0x923F82A4, 0xAB1C5ED5,
     0xD807AA98, 0x12835B01, 0x243185BE, 0x550C7DC3,
     0x72BE5D74, 0x80DEB1FE, 0x9BDC06A7, 0xC19BF174,
     0xE49B69C1, 0xEFBE4786, 0x0FC19DC6, 0x240CA1CC,
     0x2DE92C6F, 0x4A7484AA, 0x5CB0A9DC, 0x76F988DA,
     0x983E5152, 0xA831C66D, 0xB00327C8, 0xBF597FC7,
     0xC6E00BF3, 0xD5A79147, 0x06CA6351, 0x14292967,
     0x27B70A85, 0x2E1B2138, 0x4D2C6DFC, 0x53380D13,
     0x650A7354, 0x766A0ABB, 0x81C2C92E, 0x92722C85,
     0xA2BFE8A1, 0xA81A664B, 0xC24B8B70, 0xC76C51A3,
     0xD192E819, 0xD6990624, 0xF40E3585, 0x106AA070,
     0x19A4C116, 0x1E376C08, 0x2748774C, 0x34B0BCB5,
     0x391C0CB3, 0x4ED8AA4A, 0x5B9CCA4F, 0x682E6FF3,
     0x748F82EE, 0x78A5636F, 0x84C87814, 0x8CC70208,
     0x90BEFFFA, 0xA4506CEB, 0xBEF9A3F7, 0xC67178F2]"

definition H256 :: "u32 list" where
  "H256 = [0x6A09E667, 0xBB67AE85, 0x3C6EF372, 0xA54FF53A,
     0x510E527F, 0x9B05688C, 0x1F83D9AB, 0x5BE0CD19]"

text \<open>\<open>ROTR\<close>, \<open>Ch\<close>, \<open>Maj\<close>, \<open>BSIG0\<close>, \<open>BSIG1\<close>, \<open>SSIG0\<close>, \<open>SSIG1\<close>.\<close>

definition rotr :: "nat \<Rightarrow> u32 \<Rightarrow> u32" where
  "rotr n x = drop_bit n x OR push_bit (32 - n) x"

definition ch :: "u32 \<Rightarrow> u32 \<Rightarrow> u32 \<Rightarrow> u32" where
  "ch x y z = (x AND y) XOR (NOT x AND z)"

definition maj :: "u32 \<Rightarrow> u32 \<Rightarrow> u32 \<Rightarrow> u32" where
  "maj x y z = (x AND y) XOR (x AND z) XOR (y AND z)"

definition bsig0 :: "u32 \<Rightarrow> u32" where
  "bsig0 x = rotr 2 x XOR rotr 13 x XOR rotr 22 x"

definition bsig1 :: "u32 \<Rightarrow> u32" where
  "bsig1 x = rotr 6 x XOR rotr 11 x XOR rotr 25 x"

definition ssig0 :: "u32 \<Rightarrow> u32" where
  "ssig0 x = rotr 7 x XOR rotr 18 x XOR drop_bit 3 x"

definition ssig1 :: "u32 \<Rightarrow> u32" where
  "ssig1 x = rotr 17 x XOR rotr 19 x XOR drop_bit 10 x"

text \<open>The message schedule: \<open>schedule k ws\<close> emits \<open>k\<close> words; \<open>ws\<close> holds
  \<open>W(t-16) .. W(t-1)\<close>, and the next word is
  \<open>SSIG1(W(t-2)) + W(t-7) + SSIG0(W(t-15)) + W(t-16)\<close>.\<close>

fun schedule :: "nat \<Rightarrow> u32 list \<Rightarrow> u32 list" where
  "schedule 0 ws = []"
| "schedule (Suc k) ws = ws ! 0 # schedule k (tl ws @ [ssig1 (ws ! 14) + ws ! 9 + ssig0 (ws ! 1) + ws ! 0])"

text \<open>One round on the working variables \<open>a .. h\<close> with the round constant and the
  schedule word.\<close>

fun sha_round :: "u32 list \<Rightarrow> u32 \<times> u32 \<Rightarrow> u32 list" where
  "sha_round [a, b, c, d, e, f, g, h] (k, w) =
     (let t1 = h + bsig1 e + ch e f g + k + w;
          t2 = bsig0 a + maj a b c
      in [t1 + t2, a, b, c, d + t1, e, f, g])"
| "sha_round s kw = s"

definition compress :: "u32 list \<Rightarrow> u32 list \<Rightarrow> u32 list" where
  "compress hs block = map2 (+) hs (foldl sha_round hs (zip K256 (schedule 64 block)))"

definition be_word :: "bytes \<Rightarrow> u32" where
  "be_word bs = foldl (\<lambda>a b. push_bit 8 a OR ucast b) 0 bs"

fun words_of :: "bytes \<Rightarrow> u32 list" where
  "words_of [] = []"
| "words_of (b # bs) = be_word (take 4 (b # bs)) # words_of (drop 3 bs)"

fun blocks_of :: "u32 list \<Rightarrow> u32 list list" where
  "blocks_of [] = []"
| "blocks_of (w # ws) = take 16 (w # ws) # blocks_of (drop 15 ws)"

definition word_bytes :: "u32 \<Rightarrow> bytes" where
  "word_bytes w = [ucast (drop_bit 24 w), ucast (drop_bit 16 w), ucast (drop_bit 8 w), ucast w]"

text \<open>\<open>checkSum\<close>: \<open>t\<close> bytes \<open>0x80, 0, .., 0\<close> bring the length to 56 modulo 64, then
  the length in bits, \<open>len << 3\<close> as a \<open>uint64\<close>, big-endian.\<close>

definition pad :: "bytes \<Rightarrow> bytes" where
  "pad m =
     (let len = length m;
          t = (if len mod 64 < 56 then 56 - len mod 64 else 64 + 56 - len mod 64);
          bits = push_bit 3 (word_of_nat len :: u64)
      in m @ (0x80 # replicate (t - 1) 0) @ map (\<lambda>k. ucast (drop_bit (8 * k) bits)) [7, 6, 5, 4, 3, 2, 1, 0])"

definition sha256 :: "bytes \<Rightarrow> bytes" where
  "sha256 m = concat (map word_bytes (foldl compress H256 (blocks_of (words_of (pad m)))))"

subsection \<open>Shape of the digest\<close>

lemma length_sha_round:
  "length s = 8 \<Longrightarrow> length (sha_round s kw) = 8"
  by (cases "(s, kw)" rule: sha_round.cases) (simp_all add: Let_def)

lemma length_foldl_sha_round:
  "length s = 8 \<Longrightarrow> length (foldl sha_round s kws) = 8"
  by (induction kws arbitrary: s) (simp_all add: length_sha_round)

lemma length_compress:
  "length hs = 8 \<Longrightarrow> length (compress hs block) = 8"
  by (simp add: compress_def length_foldl_sha_round)

lemma length_foldl_compress:
  "length hs = 8 \<Longrightarrow> length (foldl compress hs blocks) = 8"
  by (induction blocks arbitrary: hs) (simp_all add: length_compress)

lemma length_concat_word_bytes:
  "length (concat (map word_bytes ws)) = 4 * length ws"
  by (induction ws) (simp_all add: word_bytes_def)

lemma length_sha256: "length (sha256 m) = 32"
  by (simp add: sha256_def length_concat_word_bytes length_foldl_compress H256_def)

end
