(* ===== verification/Package_Tests.thy ===== *)
theory Package_Tests
  imports Bloom_Filter Sha256
begin

text \<open>
  The unit tests of the package (\<open>src/unnamed/part_000\<close>) that depend on SHA-256,
  run on the model with \<open>sha256_hasher\<close>, the hasher of \<open>hash\<close>: \<open>sha256.New()\<close>,
  whose \<open>Write\<close> never returns an error, and \<open>Sum(nil)\<close>, the digest. Each test is a
  Boolean function that holds when the Go test passes; a \<open>t.Fatal\<close> or a panic is
  \<open>False\<close>. The digests of the test inputs are evaluated once, by \<open>code_simp\<close>.
\<close>

definition sha256_hasher :: hasher where
  "sha256_hasher = \<lparr>write_fails = (\<lambda>b. False), digest = sha256\<rparr>"

text \<open>\<open>fmt.Sprintf("%%064b", x)\<close>: the 64 bits of \<open>x\<close>, most significant first.\<close>

definition Sprintf_064b :: "u64 \<Rightarrow> string" where
  "Sprintf_064b x = map (\<lambda>k. if bit x k then CHR ''1'' else CHR ''0'') (rev [0..<64])"

definition TestHash_cases :: "(string \<times> u64 \<times> u64) list" where
  "TestHash_cases =
     [(''test'', 1000000, 842533), (''test'', 18446744073709551615, 11495104353665842533),
      (''test0'', 48, 8), (''test1'', 48, 24), (''test2'', 48, 17), (''test3'', 48, 23)]"

definition TestHash :: "hasher \<Rightarrow> bool" where
  "TestHash h = list_all (\<lambda>(b, bitlen, want). hash h (bytes_of b) bitlen = Inr (want, None)) TestHash_cases"

text \<open>\<open>equal\<close> of the tests: same length, then element by element.\<close>

definition equal_u64s :: "u64 list \<Rightarrow> u64 list \<Rightarrow> bool" where
  "equal_u64s s1 s2 =
     (if length s1 \<noteq> length s2 then False
      else list_all (\<lambda>i. s1 ! i = s2 ! i) [0..<length s1])"

definition TestBitpositions_cases :: "(string \<times> byte \<times> u64 \<times> u64 list) list" where
  "TestBitpositions_cases = [(''test'', 4, 48, [7, 36, 32, 37])]"

definition TestBitpositions :: "hasher \<Rightarrow> bool" where
  "TestBitpositions h =
     list_all (\<lambda>(element, hashqty, bitlen, want).
                 case bitpositions h (bytes_of element) hashqty bitlen of
                   Inr (got, None) \<Rightarrow> equal_u64s got want
                 | _ \<Rightarrow> False) TestBitpositions_cases"

text \<open>\<open>TestFilter_Add\<close>: the literal \<open>&Filter{hashqty: 4, bitlen: 48, bitstore: make([]uint64, 1)}\<close>
  leaves \<open>prob\<close> and \<open>n\<close> zero.\<close>

definition TestFilter_Add :: "hasher \<Rightarrow> bool" where
  "TestFilter_Add h =
     (let bf = \<lparr>prob = 0, bitlen = 48, hashqty = 4, n_elems = 0, bitstore = [0]\<rparr> in
      case Add h bf (bytes_of ''test'') of
        Inr (None, bf') \<Rightarrow>
          bitstore bf' \<noteq> [] \<and>
          Sprintf_064b (bitstore bf' ! 0) = ''0000000000000000000000000011000100000000000000000000000010000000''
      | _ \<Rightarrow> False)"

definition TestFilter_Has_cases :: "(bytes \<times> bool) list" where
  "TestFilter_Has_cases = [(bytes_of ''test'', True), (bytes_of ''test1'', False), ([], False)]"

definition TestFilter_Has :: "hasher \<Rightarrow> bool" where
  "TestFilter_Has h =
     (let bf = \<lparr>prob = 0, bitlen = 48, hashqty = 4, n_elems = 0, bitstore = [210453397632]\<rparr> in
      list_all (\<lambda>(element, want). Has h bf element = Inr (want, None)) TestFilter_Has_cases)"

text \<open>\<open>TestNew\<close>: each case compares \<open>n\<close>, \<open>prob\<close>, \<open>bitlen\<close>, \<open>hashqty\<close> and the
  length of \<open>bitstore\<close> of the new filter with the wanted one; an error is \<open>t.Fatal\<close>.\<close>

definition TestNew_cases :: "(string \<times> u32 \<times> real \<times> Filter) list" where
  "TestNew_cases =
     [(''n=1'', 1, 0.01,
       \<lparr>prob = 0.01, bitlen = 10, hashqty = 7, n_elems = 1, bitstore = replicate 1 0\<rparr>),
      (''n=6'', 6, 0.01,
       \<lparr>prob = 0.01, bitlen = 58, hashqty = 7, n_elems = 6, bitstore = replicate 1 0\<rparr>),
      (''n=7'', 7, 0.01,
       \<lparr>prob = 0.01, bitlen = 68, hashqty = 7, n_elems = 7, bitstore = replicate 2 0\<rparr>),
      (''n=max'', 4294967295, 0.01,
       \<lparr>prob = 0.01, bitlen = 41167512252, hashqty = 7, n_elems = 4294967295,
        bitstore = replicate 643242379 0\<rparr>),
      (''n=max prob=0.001'', 4294967295, 0.001,
       \<lparr>prob = 0.001, bitlen = 61751268378, hashqty = 10, n_elems = 4294967295,
        bitstore = replicate 964863569 0\<rparr>)]"

definition TestNew :: bool where
  "TestNew =
     list_all (\<lambda>(name, n, p, want).
                 case New n p of
                   Some (Inr got) \<Rightarrow>
                     n_elems got = n_elems want \<and> prob got = prob want \<and> bitlen got = bitlen want
                     \<and> hashqty got = hashqty want \<and> length (bitstore got) = length (bitstore want)
                 | _ \<Rightarrow> False) TestNew_cases"

definition TestNew_error_cases :: "(u32 \<times> real \<times> error) list" where
  "TestNew_error_cases = [(0, 0.1, ErrZeroElements), (1, 0, ErrProbability), (1, -0.1, ErrProbability)]"

definition TestNew_error :: bool where
  "TestNew_error = list_all (\<lambda>(n, p, want). New n p = Some (Inl want)) TestNew_error_cases"

subsection \<open>The hasher of the package\<close>

lemma digest_sha256_hasher [simp]: "digest sha256_hasher b = sha256 b"
  by (simp add: sha256_hasher_def)

lemma write_fails_sha256_hasher [simp]: "\<not> write_fails sha256_hasher b"
  by (simp add: sha256_hasher_def)

lemma sha256_hasher_ok: "hash_ok sha256_hasher b"
  by (simp add: hash_ok_def length_sha256)

lemma bitpositions_sha256:
  "bl \<noteq> 0 \<Longrightarrow>
   bitpositions sha256_hasher e q bl = Inr (positions_spec sha256_hasher e q bl, None)"
  unfolding bitpositions_def by (rule bitpositions_loop_ok) (simp_all add: sha256_hasher_ok)

subsection \<open>Digests of the test inputs\<close>

lemma sha256_test: "sha256 [116, 101, 115, 116] = [159, 134, 208, 129, 136, 76, 125, 101, 154, 47, 234, 160, 197, 90, 208, 21, 163, 191, 79, 27, 43, 11, 130, 44, 209, 93, 108, 21, 176, 240, 10, 8]"
  by code_simp

lemma sha256_test0: "sha256 [116, 101, 115, 116, 48] = [89, 12, 159, 132, 48, 199, 67, 88, 7, 223, 139, 169, 164, 118, 227, 241, 41, 93, 70, 239, 33, 15, 110, 250, 226, 4, 58, 76, 8, 90, 86, 158]"
  by code_simp

lemma sha256_test1: "sha256 [116, 101, 115, 116, 49] = [27, 79, 14, 152, 81, 151, 25, 152, 231, 50, 7, 133, 68, 201, 107, 54, 195, 208, 28, 237, 247, 202, 163, 50, 53, 157, 111, 29, 131, 86, 112, 20]"
  by code_simp

lemma sha256_test2: "sha256 [116, 101, 115, 116, 50] = [96, 48, 58, 226, 43, 153, 136, 97, 188, 227, 178, 143, 51, 238, 193, 190, 117, 138, 33, 60, 134, 201, 60, 7, 109, 190, 159, 85, 140, 17, 199, 82]"
  by code_simp

lemma sha256_test3: "sha256 [116, 101, 115, 116, 51] = [253, 97, 160, 58, 244, 247, 125, 135, 15, 194, 30, 5, 231, 232, 6, 120, 9, 92, 146, 216, 8, 207, 179, 181, 194, 121, 238, 4, 199, 74, 202, 19]"
  by code_simp

lemma sha256_test_0: "sha256 [116, 101, 115, 116, 0] = [206, 183, 55, 73, 200, 153, 105, 55, 6, 237, 225, 227, 12, 153, 41, 179, 253, 93, 217, 38, 22, 56, 49, 194, 251, 139, 212, 30, 110, 251, 17, 38]"
  by code_simp

lemma sha256_test1_0: "sha256 [116, 101, 115, 116, 49, 0] = [125, 145, 211, 93, 146, 12, 132, 119, 125, 16, 43, 35, 139, 210, 86, 108, 105, 52, 184, 115, 114, 68, 200, 220, 135, 167, 191, 123, 0, 194, 242, 164]"
  by code_simp

lemma sha256_nil_0: "sha256 [0] = [110, 52, 11, 156, 255, 179, 122, 152, 156, 165, 68, 230, 187, 120, 10, 44, 120, 144, 29, 63, 179, 55, 56, 118, 133, 17, 163, 6, 23, 175, 160, 29]"
  by code_simp

lemma sha256_test_1: "sha256 [116, 101, 115, 116, 1] = [252, 9, 69, 104, 179, 9, 93, 164, 143, 186, 142, 52, 205, 210, 215, 199, 123, 229, 74, 47, 56, 50, 200, 134, 73, 16, 255, 169, 95, 215, 234, 102]"
  by code_simp

lemma sha256_test1_1: "sha256 [116, 101, 115, 116, 49, 1] = [31, 2, 214, 64, 135, 228, 192, 17, 195, 108, 97, 128, 112, 2, 235, 111, 1, 155, 5, 159, 65, 227, 189, 80, 63, 180, 55, 195, 134, 51, 201, 198]"
  by code_simp

lemma sha256_nil_1: "sha256 [1] = [75, 245, 18, 47, 52, 69, 84, 197, 59, 222, 46, 187, 140, 210, 183, 227, 209, 96, 10, 214, 49, 195, 133, 165, 215, 204, 226, 60, 119, 133, 69, 154]"
  by code_simp

lemma sha256_test_2: "sha256 [116, 101, 115, 116, 2] = [191, 43, 233, 75, 143, 107, 168, 176, 165, 10, 195, 155, 61, 132, 65, 121, 128, 58, 26, 209, 47, 216, 36, 194, 190, 189, 107, 43, 188, 198, 119, 218]"
  by code_simp

lemma sha256_test1_2: "sha256 [116, 101, 115, 116, 49, 2] = [251, 102, 49, 74, 56, 32, 113, 209, 204, 175, 247, 97, 252, 91, 33, 47, 174, 32, 108, 2, 7, 39, 116, 157, 187, 107, 56, 29, 57, 58, 44, 158]"
  by code_simp

lemma sha256_nil_2: "sha256 [2] = [219, 193, 180, 201, 0, 255, 228, 141, 87, 91, 93, 165, 198, 56, 4, 1, 37, 246, 93, 176, 254, 62, 36, 73, 75, 118, 234, 152, 100, 87, 217, 134]"
  by code_simp

lemma sha256_test_3: "sha256 [116, 101, 115, 116, 3] = [181, 237, 107, 2, 31, 161, 65, 117, 60, 254, 189, 19, 68, 165, 77, 17, 234, 27, 241, 203, 120, 228, 195, 238, 55, 232, 198, 90, 194, 46, 3, 38]"
  by code_simp

lemma sha256_test1_3: "sha256 [116, 101, 115, 116, 49, 3] = [238, 214, 105, 24, 50, 109, 43, 1, 6, 19, 17, 58, 191, 39, 57, 234, 95, 32, 159, 163, 67, 24, 199, 183, 137, 95, 79, 133, 51, 43, 4, 145]"
  by code_simp

lemma sha256_nil_3: "sha256 [3] = [8, 79, 237, 8, 185, 120, 175, 77, 125, 25, 106, 116, 70, 168, 107, 88, 0, 158, 99, 107, 97, 29, 177, 98, 17, 182, 90, 154, 173, 255, 41, 197]"
  by code_simp

subsection \<open>Properties\<close>

text \<open>The hasher of \<open>hash\<close> meets the contract the code relies
  on: \<open>h.Write\<close> never returns an error and \<open>h.Sum(nil)\<close> is always 32 bytes, so the
  slice \<open>hexdigest[:16]\<close> is always in range.\<close>

theorem sha256_hasher_contract: "\<not> write_fails sha256_hasher b \<and> length (digest sha256_hasher b) = 32"
  by (simp add: sha256_hasher_def length_sha256)

text \<open>The digest of the hasher matches the test vectors of
  FIPS 180-4: the one-block message \<open>"abc"\<close>, and the 56-byte two-block message for which
  the padding takes the branch that spills into a second block.\<close>

theorem sha256_hasher_FIPS_vectors:
  "digest sha256_hasher [97, 98, 99] = [186, 120, 22, 191, 143, 1, 207, 234, 65, 65, 64, 222, 93, 174, 34, 35, 176, 3, 97, 163, 150, 23, 122, 156, 180, 16, 255, 97, 242, 0, 21, 173]
   \<and> digest sha256_hasher [97, 98, 99, 100, 98, 99, 100, 101, 99, 100, 101, 102, 100, 101, 102, 103, 101, 102, 103, 104, 102, 103, 104, 105, 103, 104, 105, 106, 104, 105, 106, 107, 105, 106, 107, 108, 106, 107, 108, 109, 107, 108, 109, 110, 108, 109, 110, 111, 109, 110, 111, 112, 110, 111, 112, 113]
       = [36, 141, 106, 97, 210, 6, 56, 184, 229, 192, 38, 147, 12, 62, 96, 57, 163, 60, 228, 89, 100, 255, 33, 103, 246, 236, 237, 212, 25, 219, 6, 193]"
  by code_simp

text \<open>With the SHA-256 hasher, \<open>hash\<close> never fails and never panics on
  a non-zero bit length: the position is the first eight digest bytes, read big-endian
  (what \<open>ParseUint\<close> of the first 16 hex digits gives), modulo the bit length.\<close>

theorem hash_sha256:
  assumes "bl \<noteq> 0"
  shows "hash sha256_hasher b bl = Inr (word_of_nat (be_nat (take 8 (sha256 b))) mod bl, None)"
  using hash_when_ok [OF sha256_hasher_ok assms] by (simp add: hash_pos_def)

theorem hash_sha256_witness:
  "hash sha256_hasher (bytes_of ''test'') 18446744073709551615 = Inr (11495104353665842533, None)"
  using hash_sha256 [of 18446744073709551615 "bytes_of ''test''"]
  by (simp add: bytes_of_def sha256_test be_acc_def)

text \<open>\<open>TestHash\<close> passes: the six rows, from \<open>"test"\<close> modulo
  \<open>1000000\<close> and modulo the largest \<open>uint64\<close> to \<open>"test0"\<close> .. \<open>"test3"\<close> modulo 48.\<close>

theorem TestHash_passes: "TestHash sha256_hasher"
  by (simp add: TestHash_def TestHash_cases_def bytes_of_def hash_when_ok sha256_hasher_ok hash_pos_def be_acc_def
      sha256_test sha256_test0 sha256_test1 sha256_test2 sha256_test3)

text \<open>\<open>TestBitpositions\<close> passes: the positions of
  \<open>"test"\<close> for four hash functions in 48 bits are 7, 36, 32, 37.\<close>

theorem TestBitpositions_passes: "TestBitpositions sha256_hasher"
  by (simp add: TestBitpositions_def TestBitpositions_cases_def bytes_of_def bitpositions_sha256 positions_spec_def
      hash_pos_def be_acc_def upt_rec sha256_test_0 sha256_test_1 sha256_test_2 sha256_test_3 equal_u64s_def)

text \<open>\<open>TestFilter_Add\<close> passes: adding \<open>"test"\<close> to the
  empty 48-bit filter sets bits 7, 32, 36 and 37 of its bucket.\<close>

theorem TestFilter_Add_passes: "TestFilter_Add sha256_hasher"
  by (simp add: TestFilter_Add_def bytes_of_def Add_def bitpositions_sha256 positions_spec_def
      hash_pos_def be_acc_def upt_rec sha256_test_0 sha256_test_1 sha256_test_2 sha256_test_3 bitlocation_def
      Sprintf_064b_def)

text \<open>\<open>TestFilter_Has\<close> passes: on the bucket of
  \<open>"test"\<close>, \<open>Has\<close> answers \<open>true\<close> for \<open>"test"\<close> and \<open>false\<close> for \<open>"test1"\<close> and
  for the nil slice, without error.\<close>

theorem TestFilter_Has_passes: "TestFilter_Has sha256_hasher"
  by (simp add: TestFilter_Has_def TestFilter_Has_cases_def bytes_of_def Has_def bitpositions_sha256 positions_spec_def
      hash_pos_def be_acc_def upt_rec bitlocation_def
      sha256_test_0 sha256_test_1 sha256_test_2 sha256_test_3
      sha256_test1_0 sha256_test1_1 sha256_test1_2 sha256_test1_3
      sha256_nil_0 sha256_nil_1 sha256_nil_2 sha256_nil_3)

text \<open>The tests of \<open>New\<close> pass with the exact planner: \<open>TestNew\<close>, with the bit lengths,
  hash counts and bucket counts of its five cases (up to 4294967295 elements at probability
  0.001), and \<open>TestNew_error\<close>, with its three rejected arguments.\<close>

theorem TestNew_passes: "TestNew \<and> TestNew_error"
proof
  have q: "optimalHashQty 0.01 = Some 7" "optimalHashQty 0.001 = Some 10"
    by (rule optimalHashQty_hundredth optimalHashQty_thousandth)+
  show "TestNew"
    using optimalBitLen_table q
    by (simp add: TestNew_def TestNew_cases_def New_params)
  show "TestNew_error"
    by (simp add: TestNew_error_def TestNew_error_cases_def New_def New_with_def)
qed

end
