(* ===== verification/Programs.thy ===== *)
theory Programs
  imports Lifecycle Package_Tests
begin

text \<open>
  The programs that use the package: \<open>Example\<close>, \<open>Example_optimistic\<close> and
  \<open>ExampleNew_error\<close> of \<open>examples_test.go\<close>, the README's \<open>main\<close>, the fuzz target
  of \<open>fuzz.go\<close> and the benchmarks, each as a function of the hasher to an \<open>outcome\<close>:
  what the run prints, a \<open>log.Fatalf\<close>, a panic, or a value the Go specification leaves
  to the implementation (a float conversion out of range in \<open>New\<close>).
\<close>


text \<open>What a program run ends with: its standard output, a \<open>log.Fatalf\<close> (message and
  exit), a panic, or a value the Go specification leaves to the implementation (a float
  conversion out of range in \<open>New\<close>).\<close>

datatype outcome = Output string | Fatal string | Panicked panic | Unspecified

text \<open>\<open>Example\<close> of \<open>examples_test.go\<close>.\<close>

definition Example :: "hasher \<Rightarrow> outcome" where
  "Example h =
     (case New 100 (1 / 100) of
        None \<Rightarrow> Unspecified
      | Some (Inl err) \<Rightarrow> Fatal (''Bloom filter is not created: '' @ error_message err)
      | Some (Inr bf) \<Rightarrow>
          (let bob = bytes_of ''bob@example.com'' in
           case Add h bf bob of
             Inl pn \<Rightarrow> Panicked pn
           | Inr (Some err, bf') \<Rightarrow> Fatal (''Bloom filter couldn't add element: '' @ error_message err)
           | Inr (None, bf') \<Rightarrow>
               (case Has h bf' bob of
                  Inl pn \<Rightarrow> Panicked pn
                | Inr (isIn, Some err) \<Rightarrow> Fatal (''Bloom filter couldn't test element: '' @ error_message err)
                | Inr (isIn, None) \<Rightarrow>
                    Output ((if isIn then ''Bob's email is likely in the set.''
                             else ''Bob's email is not found.'') @ newline))))"

text \<open>\<open>Example_optimistic\<close> of \<open>examples_test.go\<close>: \<open>MustAdd\<close> and \<open>MustHave\<close> panic
  on an error, and \<open>fmt.Print\<close> prints without a newline.\<close>

definition Example_optimistic :: "hasher \<Rightarrow> outcome" where
  "Example_optimistic h =
     (case New 100 (1 / 100) of
        None \<Rightarrow> Unspecified
      | Some (Inl err) \<Rightarrow> Fatal (''Bloom filter is not created: '' @ error_message err)
      | Some (Inr bf) \<Rightarrow>
          (let email = bytes_of ''alice@example.com'' in
           case MustAdd h bf email of
             Inl pn \<Rightarrow> Panicked pn
           | Inr bf' \<Rightarrow>
               (case MustHave h bf' email of
                  Inl pn \<Rightarrow> Panicked pn
                | Inr isIn \<Rightarrow>
                    Output (if isIn then ''Alice's email possibly is in the set.''
                            else ''Alice's email definitely is not in the set.''))))"

text \<open>\<open>ExampleNew_error\<close> of \<open>examples_test.go\<close>: each error that equals the expected
  one is printed with \<open>fmt.Println\<close>.\<close>

definition ExampleNew_error :: outcome where
  "ExampleNew_error =
     (case (New 0 (1 / 100), New 1000000 0) of
        (Some r1, Some r2) \<Rightarrow>
          Output ((case r1 of Inl err \<Rightarrow> if err = ErrZeroElements then error_message err @ newline else []
                            | Inr bf \<Rightarrow> [])
                  @ (case r2 of Inl err \<Rightarrow> if err = ErrProbability then error_message err @ newline else []
                              | Inr bf \<Rightarrow> []))
      | _ \<Rightarrow> Unspecified)"

text \<open>\<open>Fuzz\<close> of \<open>fuzz.go\<close>: the error of \<open>New\<close> is discarded, so an error there would
  leave \<open>bf\<close> nil and \<open>bf.Add\<close> would dereference it. \<open>None\<close>: an unspecified float
  conversion in \<open>New\<close>.\<close>

definition Fuzz :: "hasher \<Rightarrow> bytes \<Rightarrow> (panic + int) option" where
  "Fuzz h data =
     (case New 4294967295 (1 / 10000) of
        None \<Rightarrow> None
      | Some (Inl err) \<Rightarrow> Some (Inl NilDereference)
      | Some (Inr bf) \<Rightarrow>
          (case Add h bf data of
             Inl pn \<Rightarrow> Some (Inl pn)
           | Inr (Some err, bf') \<Rightarrow> Some (Inr 0)
           | Inr (None, bf') \<Rightarrow> Some (Inr 1)))"

text \<open>The program of the README's usage example (\<open>src/unnamed/part_000\<close>): the
  same calls as \<open>Example_optimistic\<close>, run as \<open>main\<close>.\<close>

definition README_main :: "hasher \<Rightarrow> outcome" where
  "README_main h =
     (case New 100 (1 / 100) of
        None \<Rightarrow> Unspecified
      | Some (Inl err) \<Rightarrow> Fatal (''Bloom filter is not created: '' @ error_message err)
      | Some (Inr bf) \<Rightarrow>
          (let email = bytes_of ''alice@example.com'' in
           case MustAdd h bf email of
             Inl pn \<Rightarrow> Panicked pn
           | Inr bf' \<Rightarrow>
               (case MustHave h bf' email of
                  Inl pn \<Rightarrow> Panicked pn
                | Inr isIn \<Rightarrow>
                    Output (if isIn then ''Alice's email possibly is in the set.''
                            else ''Alice's email definitely is not in the set.''))))"

text \<open>The benchmarks of \<open>src/unnamed/part_000\<close>, without the timing: for each case a
  filter from \<open>New\<close> (\<open>b.Fatal\<close> on an error), then \<open>b.N\<close> calls of \<open>Add\<close> (its error
  discarded) or of \<open>Has\<close> on the same element, the UTF-8 bytes of the benchmarks' string
  literal (\<open>"Hello, "\<close>, two CJK characters, a space and an emoji). \<open>Output []\<close>: the
  benchmark ran to its end.\<close>

definition bench_element :: bytes where
  "bench_element = [72, 101, 108, 108, 111, 44, 32, 228, 184, 150, 231, 149, 140, 32, 240, 159, 164, 170]"

definition bench_cases :: "(string \<times> u32 \<times> real) list" where
  "bench_cases = [(''1.198MB'', 1000000, 0.01), (''2.573GB'', 2147483647, 0.01)]"

primrec bench_loop :: "(Filter \<Rightarrow> panic + Filter) \<Rightarrow> nat \<Rightarrow> Filter \<Rightarrow> panic + Filter" where
  "bench_loop f 0 bf = Inr bf"
| "bench_loop f (Suc k) bf = (case f bf of Inl pn \<Rightarrow> Inl pn | Inr bf' \<Rightarrow> bench_loop f k bf')"

definition bench_run :: "(Filter \<Rightarrow> panic + Filter) \<Rightarrow> nat \<Rightarrow> u32 \<Rightarrow> real \<Rightarrow> outcome" where
  "bench_run f N n p =
     (case New n p of
        None \<Rightarrow> Unspecified
      | Some (Inl err) \<Rightarrow> Fatal (error_message err)
      | Some (Inr bf) \<Rightarrow> (case bench_loop f N bf of Inl pn \<Rightarrow> Panicked pn | Inr bf' \<Rightarrow> Output []))"

definition BenchmarkFilter_Add :: "hasher \<Rightarrow> nat \<Rightarrow> (string \<times> outcome) list" where
  "BenchmarkFilter_Add h N =
     map (\<lambda>(name, n, p).
            (name, bench_run (\<lambda>bf. case Add h bf bench_element of
                                    Inl pn \<Rightarrow> Inl pn
                                  | Inr (err, bf') \<Rightarrow> Inr bf') N n p)) bench_cases"

definition BenchmarkFilter_Has :: "hasher \<Rightarrow> nat \<Rightarrow> (string \<times> outcome) list" where
  "BenchmarkFilter_Has h N =
     map (\<lambda>(name, n, p).
            (name, bench_run (\<lambda>bf. case Has h bf bench_element of
                                    Inl pn \<Rightarrow> Inl pn
                                  | Inr r \<Rightarrow> Inr bf) N n p)) bench_cases"

subsection \<open>Shared facts\<close>

lemma two_powr_neg255_le_ten_thousandth: "(2::real) powr -255 \<le> 1 / 10000"
  by (simp add: powr_minus powr_realpow divide_le_eq)

lemma New_example_params:
  obtains bf where "New 100 (1 / 100) = Some (Inr bf)" "wf_filter bf"
  using New_returns [of 100 "1 / 100"] two_powr_neg255_le New_wf by fastforce

text \<open>With a hasher that never fails, \<open>MustAdd\<close> then \<open>MustHave\<close> of one element
  on a well-formed filter return without panicking, and \<open>MustHave\<close> answers \<open>true\<close>.\<close>

lemma Must_all_ok:
  assumes "\<forall>b. hash_ok h b" "wf_filter bf"
  shows "\<exists>bf'. MustAdd h bf e = Inr bf' \<and> MustHave h bf' e = Inr True"
  using Add_Has_all_ok [OF assms, of e] by (auto simp: MustAdd_def MustHave_def)

text \<open>A benchmark loop whose body keeps the filter well-formed and never panics runs
  all its iterations.\<close>

lemma bench_loop_ok:
  assumes "\<forall>bf. wf_filter bf \<longrightarrow> (\<exists>bf'. f bf = Inr bf' \<and> wf_filter bf')" "wf_filter bf"
  shows "\<exists>bf'. bench_loop f N bf = Inr bf'"
  using assms(2)
proof (induction N arbitrary: bf)
  case 0
  then show ?case by simp
next
  case (Suc N)
  then obtain bf' where "f bf = Inr bf'" "wf_filter bf'" using assms(1) by blast
  then show ?case using Suc.IH by simp
qed

lemma bench_run_ok:
  assumes "\<forall>bf. wf_filter bf \<longrightarrow> (\<exists>bf'. f bf = Inr bf' \<and> wf_filter bf')" "n \<noteq> 0" "2 powr -255 \<le> p" "0 < p" "p \<le> 1"
  shows "bench_run f N n p = Output []"
proof -
  obtain bf where n: "New n p = Some (Inr bf)" using New_returns [OF assms(2,4,5,3)] by blast
  obtain bf' where "bench_loop f N bf = Inr bf'" using bench_loop_ok [OF assms(1) New_wf [OF n]] by blast
  then show ?thesis using n by (simp add: bench_run_def)
qed

lemma sha256_hasher_all_ok: "\<forall>b. hash_ok sha256_hasher b"
  by (simp add: sha256_hasher_ok)

subsection \<open>Properties of the programs\<close>

text \<open>C15: \<open>Example\<close> prints "Bob's email is likely in the set." for
  every hasher that, like SHA-256, never fails to write and returns at least 8 bytes: \<open>New\<close>
  accepts 100 elements at probability 0.01, the \<open>Add\<close> succeeds and the \<open>Has\<close> answers
  \<open>true\<close>.\<close>

theorem Example_output:
  assumes "\<forall>b. hash_ok h b"
  shows "Example h = Output (''Bob's email is likely in the set.'' @ newline)"
proof -
  obtain bf where n: "New 100 (1 / 100) = Some (Inr bf)" and wf: "wf_filter bf" by (rule New_example_params)
  obtain bf' where "Add h bf (bytes_of ''bob@example.com'') = Inr (None, bf')"
    "Has h bf' (bytes_of ''bob@example.com'') = Inr (True, None)"
    using Add_Has_all_ok [OF assms wf] by blast
  then show ?thesis using n by (simp add: Example_def)
qed

theorem Example_output_witness:
  "Example sha256_hasher = Output (''Bob's email is likely in the set.'' @ newline)"
  using Example_output [OF sha256_hasher_all_ok] .

text \<open>\<open>Example_optimistic\<close> prints "Alice's email possibly
  is in the set." without panicking, for every hasher that never fails.\<close>

theorem Example_optimistic_output:
  assumes "\<forall>b. hash_ok h b"
  shows "Example_optimistic h = Output ''Alice's email possibly is in the set.''"
proof -
  obtain bf where n: "New 100 (1 / 100) = Some (Inr bf)" and wf: "wf_filter bf" by (rule New_example_params)
  obtain bf' where "MustAdd h bf (bytes_of ''alice@example.com'') = Inr bf'"
    "MustHave h bf' (bytes_of ''alice@example.com'') = Inr True"
    using Must_all_ok [OF assms wf] by blast
  then show ?thesis using n by (simp add: Example_optimistic_def)
qed

theorem Example_optimistic_output_witness:
  "Example_optimistic sha256_hasher = Output ''Alice's email possibly is in the set.''"
  using Example_optimistic_output [OF sha256_hasher_all_ok] .

text \<open>C17: The fuzz target never panics and returns 1 on every input,
  for every hasher that never fails: \<open>New(4294967295, 0.0001)\<close> returns a filter
  (so the discarded error cannot leave \<open>bf\<close> nil) and its \<open>Add\<close> succeeds.\<close>

theorem Fuzz_returns_one:
  assumes "\<forall>b. hash_ok h b"
  shows "Fuzz h data = Some (Inr 1)"
proof -
  obtain bf where n: "New 4294967295 (1 / 10000) = Some (Inr bf)"
    using New_returns [of 4294967295 "1 / 10000"] two_powr_neg255_le_ten_thousandth by fastforce
  have "wf_filter bf" using n by (rule New_wf)
  then obtain bf' where "Add h bf data = Inr (None, bf')" using Add_Has_all_ok [OF assms] by blast
  then show ?thesis using n by (simp add: Fuzz_def)
qed

theorem Fuzz_returns_one_witness:
  "Fuzz sha256_hasher [1, 2, 3] = Some (Inr 1)"
  using Fuzz_returns_one [OF sha256_hasher_all_ok] .

text \<open>C16: The README's usage example, run with SHA-256, prints "Alice's
  email possibly is in the set." without panicking.\<close>

theorem README_output: "README_main sha256_hasher = Output ''Alice's email possibly is in the set.''"
proof -
  obtain bf where n: "New 100 (1 / 100) = Some (Inr bf)" and wf: "wf_filter bf" by (rule New_example_params)
  obtain bf' where "MustAdd sha256_hasher bf (bytes_of ''alice@example.com'') = Inr bf'"
    "MustHave sha256_hasher bf' (bytes_of ''alice@example.com'') = Inr True"
    using Must_all_ok [OF sha256_hasher_all_ok wf] by blast
  then show ?thesis using n by (simp add: README_main_def)
qed

text \<open>C18: Both benchmarks create their filters (one million and
  2147483647 elements at probability 0.01) and run any number \<open>b.N\<close> of iterations to
  the end without panicking, for every hasher that never fails.\<close>

theorem Benchmarks_complete:
  assumes "\<forall>b. hash_ok h b"
  shows "BenchmarkFilter_Add h N = [(''1.198MB'', Output []), (''2.573GB'', Output [])]
         \<and> BenchmarkFilter_Has h N = [(''1.198MB'', Output []), (''2.573GB'', Output [])]"
proof -
  have add: "\<forall>bf. wf_filter bf \<longrightarrow> (\<exists>bf'. (case Add h bf bench_element of
                                              Inl pn \<Rightarrow> Inl pn | Inr (err, bf') \<Rightarrow> Inr bf') = Inr bf' \<and> wf_filter bf')"
  proof (intro allI impI)
    fix bf assume wf: "wf_filter bf"
    obtain bf' where a: "Add h bf bench_element = Inr (None, bf')" using Add_Has_all_ok [OF assms wf] by blast
    then show "\<exists>bf'. (case Add h bf bench_element of Inl pn \<Rightarrow> Inl pn | Inr (err, bf') \<Rightarrow> Inr bf') = Inr bf' \<and> wf_filter bf'"
      using Add_step [OF wf a] by simp
  qed
  have has: "\<forall>bf. wf_filter bf \<longrightarrow> (\<exists>bf'. (case Has h bf bench_element of
                                              Inl pn \<Rightarrow> Inl pn | Inr r \<Rightarrow> Inr bf) = Inr bf' \<and> wf_filter bf')"
  proof (intro allI impI)
    fix bf assume wf: "wf_filter bf"
    obtain r where "Has h bf bench_element = Inr (r, None)" using Has_all_ok [OF assms wf] by blast
    then show "\<exists>bf'. (case Has h bf bench_element of Inl pn \<Rightarrow> Inl pn | Inr r \<Rightarrow> Inr bf) = Inr bf' \<and> wf_filter bf'"
      using wf by simp
  qed
  have p: "2 powr -255 \<le> (0.01::real)" "0 < (0.01::real)" "(0.01::real) \<le> 1" using two_powr_neg255_le by simp_all
  show ?thesis
    using bench_run_ok [OF add _ p] bench_run_ok [OF has _ p]
    by (simp add: BenchmarkFilter_Add_def BenchmarkFilter_Has_def bench_cases_def)
qed

theorem Benchmarks_complete_witness:
  "BenchmarkFilter_Add sha256_hasher 1000 = [(''1.198MB'', Output []), (''2.573GB'', Output [])]
   \<and> BenchmarkFilter_Has sha256_hasher 1000 = [(''1.198MB'', Output []), (''2.573GB'', Output [])]"
  using Benchmarks_complete [OF sha256_hasher_all_ok] .

end
