(* ===== verification/Capacity_Float.thy ===== *)
theory Capacity_Float
  imports Capacity
begin

text \<open>
  The capacity planner of \<open>bloom.go\<close> (\<open>optimalBitLen\<close>, \<open>optimalHashQty\<close>) in
  \<open>float64\<close>. Each floating-point operation is the exact operation followed by a rounding
  function \<open>fl\<close>, and \<open>math.Log\<close> is a function \<open>lg\<close>; the theorems hold for every \<open>fl\<close>
  that rounds with relative error \<open>2 ^ -53\<close> on the normal range (IEEE-754
  round-to-nearest, \<open>fl64\<close>, is one) and every \<open>lg\<close> within two units in the last place
  of \<open>ln\<close>. The Go compiler may fuse \<open>x * y + z\<close> on some targets; the planner has no
  such sum, so every target computes the model. With \<open>fl = id\<close> and \<open>lg = ln\<close> the model
  is the exact planner of \<open>Capacity\<close>. The error analysis bounds the relative error of
  \<open>optLen\<close> by \<open>2 ^ -48\<close> and of \<open>optQty\<close> by \<open>2 ^ -49\<close>, for probabilities in
  \<open>[2 ^ -1021, 1 / 2]\<close>; from it the tables of \<open>TestOptimalBitLen\<close> and
  \<open>TestOptimalHashQty\<close> hold in \<open>float64\<close>.
\<close>

subsection \<open>\<open>float64\<close> arithmetic\<close>

text \<open>Rounding of an exact result to \<open>float64\<close>: round to nearest, ties to even,
  at the exponent of the binade of the value (at least \<open>-1074\<close>, the subnormal step).\<close>

definition round_even :: "real \<Rightarrow> int" where
  "round_even y =
     (let k = \<lfloor>y\<rfloor>; d = y - of_int k in
      if d < 1 / 2 then k else if 1 / 2 < d then k + 1 else if even k then k else k + 1)"

definition binade :: "real \<Rightarrow> int" where
  "binade x = \<lfloor>log 2 \<bar>x\<bar>\<rfloor>"

definition fl64 :: "real \<Rightarrow> real" where
  "fl64 x =
     (if x = 0 then 0
      else let e = max (-1074) (binade x - 52) in of_int (round_even (x / 2 powr e)) * 2 powr e)"

text \<open>What the proofs assume of the arithmetic: every rounded operation whose exact result
  \<open>x\<close> lies in the normal range is within \<open>2 ^ -53 * \<bar>x\<bar>\<close> of it, and zero is exact.
  IEEE-754 round-to-nearest, which the Go specification prescribes for \<open>float64\<close>, has
  this property (\<open>fl64_ok\<close> below).\<close>

definition rounding_ok :: "(real \<Rightarrow> real) \<Rightarrow> bool" where
  "rounding_ok fl \<longleftrightarrow> fl 0 = 0 \<and>
     (\<forall>x. 2 powr -1022 \<le> \<bar>x\<bar> \<and> \<bar>x\<bar> \<le> 2 powr 1023 \<longrightarrow> \<bar>fl x - x\<bar> \<le> 2 powr -53 * \<bar>x\<bar>)"

text \<open>What the proofs assume of \<open>math.Log\<close>: within two units in the last place of the
  exact logarithm (its documentation promises less than one) on the normal range.\<close>

definition log_ok :: "(real \<Rightarrow> real) \<Rightarrow> bool" where
  "log_ok lg \<longleftrightarrow>
     (\<forall>x. 2 powr -1022 \<le> x \<and> x \<le> 2 powr 1023 \<longrightarrow> \<bar>lg x - ln x\<bar> \<le> 2 powr -51 * \<bar>ln x\<bar>)"

subsection \<open>The planner in \<open>float64\<close>\<close>

text \<open>\<open>optimalBitLen\<close>: \<open>ln2 := math.Log(2)\<close>,
  \<open>optLen := -float64(n) * math.Log(prob) / (ln2 * ln2)\<close>, \<open>uint64(math.Ceil(optLen))\<close>.
  \<open>fl\<close> rounds each operation, \<open>lg\<close> is \<open>math.Log\<close>; \<open>float64(n)\<close>, the negation and
  \<open>math.Ceil\<close> are exact.\<close>

definition optLen_fp :: "(real \<Rightarrow> real) \<Rightarrow> (real \<Rightarrow> real) \<Rightarrow> u32 \<Rightarrow> real \<Rightarrow> real" where
  "optLen_fp fl lg n prob =
     (let ln2 = lg 2 in fl (fl (- real (unat n) * lg prob) / fl (ln2 * ln2)))"

definition optimalBitLen_fp :: "(real \<Rightarrow> real) \<Rightarrow> (real \<Rightarrow> real) \<Rightarrow> u32 \<Rightarrow> real \<Rightarrow> u64 option" where
  "optimalBitLen_fp fl lg n prob =
     (if prob \<le> 0 then None else go_float_to_uint (of_int \<lceil>optLen_fp fl lg n prob\<rceil>))"

text \<open>\<open>optimalHashQty\<close>: \<open>byte(math.Ceil(-math.Log(prob) / math.Log(2)))\<close>.\<close>

definition optQty_fp :: "(real \<Rightarrow> real) \<Rightarrow> (real \<Rightarrow> real) \<Rightarrow> real \<Rightarrow> real" where
  "optQty_fp fl lg prob = fl (- lg prob / lg 2)"

definition optimalHashQty_fp :: "(real \<Rightarrow> real) \<Rightarrow> (real \<Rightarrow> real) \<Rightarrow> real \<Rightarrow> byte option" where
  "optimalHashQty_fp fl lg prob =
     (if prob \<le> 0 then None else go_float_to_uint (of_int \<lceil>optQty_fp fl lg prob\<rceil>))"

text \<open>The two tests, with the probabilities of their tables rounded to \<open>float64\<close> as the
  Go compiler rounds the literals.\<close>

definition TestOptimalBitLen_fp :: "(real \<Rightarrow> real) \<Rightarrow> (real \<Rightarrow> real) \<Rightarrow> bool" where
  "TestOptimalBitLen_fp fl lg =
     list_all (\<lambda>(n, prob, want). optimalBitLen_fp fl lg n (fl prob) = Some want) TestOptimalBitLen_cases"

definition TestOptimalHashQty_fp :: "(real \<Rightarrow> real) \<Rightarrow> (real \<Rightarrow> real) \<Rightarrow> bool" where
  "TestOptimalHashQty_fp fl lg =
     list_all (\<lambda>(prob, want). optimalHashQty_fp fl lg (fl prob) = Some want) TestOptimalHashQty_cases"


subsection \<open>Rounding errors\<close>

lemma round_even_close: "\<bar>of_int (round_even y) - y\<bar> \<le> 1 / 2"
proof -
  have f: "of_int \<lfloor>y\<rfloor> \<le> y" "y < of_int \<lfloor>y\<rfloor> + 1" by linarith+
  show ?thesis unfolding round_even_def Let_def using f by (auto split: if_splits)
qed

lemma err_chain:
  fixes x y z :: real
  assumes "\<bar>y - x\<bar> \<le> a * \<bar>x\<bar>" "\<bar>z - y\<bar> \<le> b * \<bar>y\<bar>" "0 \<le> a" "0 \<le> b"
  shows "\<bar>z - x\<bar> \<le> (a + b + a * b) * \<bar>x\<bar>"
proof -
  have "\<bar>y\<bar> \<le> (1 + a) * \<bar>x\<bar>" using assms(1) by (simp add: algebra_simps)
  then have "b * \<bar>y\<bar> \<le> b * ((1 + a) * \<bar>x\<bar>)" using assms(4) by (rule mult_left_mono)
  then have "\<bar>z - y\<bar> \<le> b * (1 + a) * \<bar>x\<bar>" using assms(2) by (simp add: algebra_simps)
  then have "\<bar>z - x\<bar> \<le> a * \<bar>x\<bar> + b * (1 + a) * \<bar>x\<bar>" using assms(1) by linarith
  then show ?thesis by (simp add: algebra_simps)
qed

lemma err_mult:
  fixes x1 x2 y1 y2 :: real
  assumes "\<bar>y1 - x1\<bar> \<le> a * \<bar>x1\<bar>" "\<bar>y2 - x2\<bar> \<le> b * \<bar>x2\<bar>" "0 \<le> a" "0 \<le> b"
  shows "\<bar>y1 * y2 - x1 * x2\<bar> \<le> (a + b + a * b) * \<bar>x1 * x2\<bar>"
proof -
  have "\<bar>y1 * y2 - y1 * x2\<bar> = \<bar>y1\<bar> * \<bar>y2 - x2\<bar>" by (simp add: abs_mult right_diff_distrib [symmetric])
  also have "\<dots> \<le> ((1 + a) * \<bar>x1\<bar>) * (b * \<bar>x2\<bar>)"
  proof (rule mult_mono)
    show "\<bar>y1\<bar> \<le> (1 + a) * \<bar>x1\<bar>" using assms(1) by (simp add: algebra_simps)
  qed (use assms in simp_all)
  finally have 1: "\<bar>y1 * y2 - y1 * x2\<bar> \<le> (b + a * b) * \<bar>x1 * x2\<bar>" by (simp add: abs_mult algebra_simps)
  have "\<bar>y1 * x2 - x1 * x2\<bar> = \<bar>y1 - x1\<bar> * \<bar>x2\<bar>" by (simp add: abs_mult left_diff_distrib [symmetric])
  also have "\<dots> \<le> a * \<bar>x1\<bar> * \<bar>x2\<bar>" using assms(1) by (intro mult_right_mono) simp_all
  finally have 2: "\<bar>y1 * x2 - x1 * x2\<bar> \<le> a * \<bar>x1 * x2\<bar>" by (simp add: abs_mult)
  have "\<bar>y1 * y2 - x1 * x2\<bar> \<le> \<bar>y1 * y2 - y1 * x2\<bar> + \<bar>y1 * x2 - x1 * x2\<bar>" by linarith
  then show ?thesis using 1 2 by (simp add: algebra_simps)
qed

lemma err_div:
  fixes x1 x2 y1 y2 :: real
  assumes "\<bar>y1 - x1\<bar> \<le> a * \<bar>x1\<bar>" "\<bar>y2 - x2\<bar> \<le> b * \<bar>x2\<bar>" "0 \<le> a" "0 \<le> b" "b < 1" "x2 \<noteq> 0"
  shows "\<bar>y1 / y2 - x1 / x2\<bar> \<le> (a + b) / (1 - b) * \<bar>x1 / x2\<bar>"
proof -
  have y2: "(1 - b) * \<bar>x2\<bar> \<le> \<bar>y2\<bar>" using assms(2) by (simp add: algebra_simps)
  have pos: "0 < (1 - b) * \<bar>x2\<bar>" using assms(5,6) by simp
  then have y2ne: "y2 \<noteq> 0" using y2 by auto
  have eq: "y1 / y2 - x1 / x2 = ((y1 - x1) * x2 - x1 * (y2 - x2)) / (y2 * x2)"
    using y2ne assms(6) by (simp add: field_simps)
  have "\<bar>(y1 - x1) * x2 - x1 * (y2 - x2)\<bar> \<le> \<bar>y1 - x1\<bar> * \<bar>x2\<bar> + \<bar>x1\<bar> * \<bar>y2 - x2\<bar>"
    by (metis abs_mult abs_triangle_ineq4)
  also have "\<dots> \<le> a * \<bar>x1\<bar> * \<bar>x2\<bar> + \<bar>x1\<bar> * (b * \<bar>x2\<bar>)"
    using assms(1,2) by (intro add_mono mult_right_mono mult_left_mono) simp_all
  finally have num: "\<bar>(y1 - x1) * x2 - x1 * (y2 - x2)\<bar> \<le> (a + b) * \<bar>x1\<bar> * \<bar>x2\<bar>" by (simp add: algebra_simps)
  have den: "(1 - b) * \<bar>x2\<bar> * \<bar>x2\<bar> \<le> \<bar>y2 * x2\<bar>" using y2 by (simp add: abs_mult mult_right_mono)
  have "\<bar>y1 / y2 - x1 / x2\<bar> = \<bar>(y1 - x1) * x2 - x1 * (y2 - x2)\<bar> / \<bar>y2 * x2\<bar>" by (simp add: eq)
  also have "\<dots> \<le> ((a + b) * \<bar>x1\<bar> * \<bar>x2\<bar>) / ((1 - b) * \<bar>x2\<bar> * \<bar>x2\<bar>)"
    using num den pos assms(3,4,6) by (intro frac_le) simp_all
  also have "\<dots> = (a + b) / (1 - b) * \<bar>x1 / x2\<bar>" using assms(5,6) by (simp add: abs_divide field_simps)
  finally show ?thesis .
qed

lemma err_weaken: "\<bar>y - x\<bar> \<le> a * \<bar>x\<bar> \<Longrightarrow> a \<le> b \<Longrightarrow> \<bar>y - x\<bar> \<le> b * (\<bar>x\<bar>::real)"
  by (meson abs_ge_zero mult_right_mono order_trans)

lemma two_powr_neg: "(2::real) powr - real k = 1 / 2 ^ k"
  by (simp add: powr_minus_divide powr_realpow)

lemma two_powr_1023: "(2::real) powr 1023 = 2 ^ 1023"
  by (simp add: powr_realpow [symmetric])

lemma fl_close:
  assumes "rounding_ok fl" "1 / 2 ^ 1022 \<le> \<bar>x\<bar>" "\<bar>x\<bar> \<le> 2 ^ 1023"
  shows "\<bar>fl x - x\<bar> \<le> 1 / 2 ^ 53 * \<bar>x\<bar>"
proof -
  have "(2::real) powr -1022 = 1 / 2 ^ 1022" using two_powr_neg [of 1022] by simp
  then have "2 powr -1022 \<le> \<bar>x\<bar> \<and> \<bar>x\<bar> \<le> 2 powr 1023" using assms(2,3) by (simp add: two_powr_1023)
  then have "\<bar>fl x - x\<bar> \<le> 2 powr -53 * \<bar>x\<bar>" using assms(1) by (simp add: rounding_ok_def)
  moreover have "(2::real) powr -53 = 1 / 2 ^ 53" using two_powr_neg [of 53] by simp
  ultimately show ?thesis by (simp only:)
qed

lemma err_range:
  fixes x y :: real
  assumes "\<bar>y - x\<bar> \<le> a * \<bar>x\<bar>" "a \<le> 1 / 2" "1 / 2 ^ 63 \<le> \<bar>x\<bar>" "\<bar>x\<bar> \<le> 2 ^ 63"
  shows "1 / 2 ^ 64 \<le> \<bar>y\<bar> \<and> \<bar>y\<bar> \<le> 2 ^ 64"
proof -
  have "a * \<bar>x\<bar> \<le> 1 / 2 * \<bar>x\<bar>" using assms(2) by (intro mult_right_mono) simp_all
  then show ?thesis using assms(1,3,4) by (simp add: algebra_simps) linarith
qed

text \<open>One rounded operation: an approximation \<open>y\<close> of \<open>x\<close>, rounded, is an approximation
  with one more rounding error.\<close>

lemma fl_step:
  fixes x y :: real
  assumes "rounding_ok fl" "\<bar>y - x\<bar> \<le> a * \<bar>x\<bar>" "0 \<le> a" "a \<le> 1 / 2"
    "1 / 2 ^ 63 \<le> \<bar>x\<bar>" "\<bar>x\<bar> \<le> 2 ^ 63"
  shows "\<bar>fl y - x\<bar> \<le> (a + 1 / 2 ^ 53 + a * (1 / 2 ^ 53)) * \<bar>x\<bar>"
proof -
  from err_range [OF assms(2,4-6)] have "1 / 2 ^ 64 \<le> \<bar>y\<bar>" "\<bar>y\<bar> \<le> 2 ^ 64" by auto
  moreover have "(1::real) / 2 ^ 1022 \<le> 1 / 2 ^ 64" "(2::real) ^ 64 \<le> 2 ^ 1023" by simp_all
  ultimately have "1 / 2 ^ 1022 \<le> \<bar>y\<bar>" "\<bar>y\<bar> \<le> 2 ^ 1023" by linarith+
  then have "\<bar>fl y - y\<bar> \<le> 1 / 2 ^ 53 * \<bar>y\<bar>" by (rule fl_close [OF assms(1)])
  then show ?thesis using assms(2,3) by (intro err_chain) simp_all
qed

lemma fl_step_c:
  fixes x y :: real
  assumes "rounding_ok fl" "\<bar>y - x\<bar> \<le> c / 2 ^ 53 * \<bar>x\<bar>" "0 \<le> c" "c \<le> 1000"
    "1 / 2 ^ 63 \<le> \<bar>x\<bar>" "\<bar>x\<bar> \<le> 2 ^ 63"
  shows "\<bar>fl y - x\<bar> \<le> (c + 2) / 2 ^ 53 * \<bar>x\<bar>"
proof -
  have "\<bar>fl y - x\<bar> \<le> (c / 2 ^ 53 + 1 / 2 ^ 53 + c / 2 ^ 53 * (1 / 2 ^ 53)) * \<bar>x\<bar>"
    using assms(3,4) by (intro fl_step [OF assms(1,2) _ _ assms(5,6)]) simp_all
  moreover have "c / 2 ^ 53 + 1 / 2 ^ 53 + c / 2 ^ 53 * (1 / 2 ^ 53) \<le> (c + 2) / (2 ^ 53 :: real)"
    using assms(3,4) by (simp add: field_simps)
  ultimately show ?thesis by (rule err_weaken)
qed

lemma log_ok_ln: "log_ok ln"
  by (simp add: log_ok_def)

lemma fl64_ok: "rounding_ok fl64"
  unfolding rounding_ok_def
proof (intro conjI allI impI)
  show "fl64 0 = 0" by (simp add: fl64_def)
  fix x :: real
  assume r: "2 powr -1022 \<le> \<bar>x\<bar> \<and> \<bar>x\<bar> \<le> 2 powr 1023"
  have "0 < (2::real) powr -1022" by simp
  then have x0: "0 < \<bar>x\<bar>" using r by linarith
  let ?b = "binade x"
  have bb: "2 powr real_of_int ?b \<le> \<bar>x\<bar> \<and> \<bar>x\<bar> < 2 powr real_of_int (?b + 1)"
    using floor_log_eq_powr_iff [OF x0, of 2 "binade x"] by (simp add: binade_def)
  have "2 powr -1022 < 2 powr real_of_int (?b + 1)" using r bb by linarith
  then have "-1022 < ?b + 1" by (simp add: powr_less_cancel_iff)
  then have e: "max (-1074) (?b - 52) = ?b - 52" by simp
  let ?e = "real_of_int (?b - 52)"
  let ?y = "x / 2 powr ?e"
  have xy: "x = ?y * 2 powr ?e" by simp
  have "fl64 x - x = (of_int (round_even ?y) - ?y) * 2 powr ?e"
    using x0 e by (simp add: fl64_def Let_def algebra_simps)
  then have "\<bar>fl64 x - x\<bar> \<le> 1 / 2 * 2 powr ?e"
    using round_even_close [of ?y] by (simp add: abs_mult mult_right_mono)
  also have "1 / 2 * 2 powr ?e = 2 powr -53 * 2 powr real_of_int ?b"
  proof -
    have "(2::real) powr ?e = 2 powr -52 * 2 powr real_of_int ?b" by (simp add: powr_add [symmetric])
    moreover have "1 / 2 * (2::real) powr -52 = 2 powr -53"
      using two_powr_neg [of 52] two_powr_neg [of 53] by simp
    ultimately show ?thesis by simp
  qed
  also have "\<dots> \<le> 2 powr -53 * \<bar>x\<bar>" using bb by simp
  finally show "\<bar>fl64 x - x\<bar> \<le> 2 powr -53 * \<bar>x\<bar>" .
qed


subsection \<open>Error of the planner\<close>

text \<open>\<open>-ln p / ln 2 = log 2 (1 / p)\<close> between the exponents of two powers of two that
  bracket \<open>p\<close>.\<close>

lemma neg_log2_range:
  fixes p :: real
  assumes "1 / 2 ^ a \<le> p" "p \<le> 1 / 2 ^ b"
  shows "real b \<le> - ln p / ln 2 \<and> - ln p / ln 2 \<le> real a"
proof -
  have p0: "0 < p" using assms(1) by (smt (verit) zero_less_divide_1_iff zero_less_power)
  have q: "- ln p / ln 2 = log 2 (1 / p)" using p0 by (simp add: log_def ln_div)
  have "2 ^ b \<le> 1 / p" "1 / p \<le> 2 ^ a" using assms p0 by (simp_all add: field_simps)
  then have "log 2 (2 ^ b) \<le> log 2 (1 / p)" "log 2 (1 / p) \<le> log 2 (2 ^ a)"
    using p0 by (subst log_le_cancel_iff; simp)+
  then show ?thesis unfolding q by (simp add: log_nat_power)
qed

lemma ln_prob_range:
  fixes p :: real
  assumes "1 / 2 ^ 1021 \<le> p" "p \<le> 1 / 2"
  shows "1 / 2 \<le> - ln p \<and> - ln p \<le> 1021"
proof -
  have l2: "1 / 2 \<le> ln (2::real)" "ln (2::real) \<le> 1" using ln_2_bounds by auto
  have "real 1 \<le> - ln p / ln 2" "- ln p / ln 2 \<le> real 1021"
    using neg_log2_range [of 1021 p 1] assms by simp_all
  then have "ln 2 \<le> - ln p" "- ln p \<le> 1021 * ln 2" using l2 by (simp_all add: field_simps)
  then show ?thesis using l2 by linarith
qed

lemma lg_2_close:
  assumes "log_ok lg"
  shows "\<bar>lg 2 - ln 2\<bar> \<le> 4 / 2 ^ 53 * \<bar>ln 2\<bar>"
proof -
  have "(2::real) powr -1022 \<le> 2 \<and> (2::real) \<le> 2 powr 1023"
    using two_powr_neg [of 1022] by (simp add: two_powr_1023)
  then have "\<bar>lg 2 - ln 2\<bar> \<le> 2 powr -51 * \<bar>ln 2\<bar>" using assms unfolding log_ok_def by blast
  moreover have "(2::real) powr -51 = 4 / 2 ^ 53" using two_powr_neg [of 51] by simp
  ultimately show ?thesis by simp
qed

text \<open>The probability literal, rounded: within \<open>2 ^ -53\<close> of the decimal value and in the
  normal range.\<close>

lemma fl_prob:
  assumes "rounding_ok fl" "1 / 2 ^ 1021 \<le> p" "p \<le> 1 / 2"
  shows "p * (1 - 1 / 2 ^ 53) \<le> fl p \<and> fl p \<le> p * (1 + 1 / 2 ^ 53) \<and> 0 < fl p
         \<and> 2 powr -1022 \<le> fl p \<and> fl p \<le> 2 powr 1023"
proof -
  define u where "u = (1 / 2 ^ 53 :: real)"
  have u: "0 < u" "u \<le> 1 / 16" by (simp_all add: u_def)
  have p0: "0 < p" using assms(2) by (smt (verit) zero_less_divide_1_iff zero_less_power)
  have "\<bar>fl p - p\<bar> \<le> u * \<bar>p\<bar>" unfolding u_def using assms(2,3) by (intro fl_close [OF assms(1)]) simp_all
  then have "fl p - p \<le> u * p" "p - fl p \<le> u * p" using p0 by (simp_all only: abs_le_iff minus_diff_eq abs_of_pos)
  then have lo: "p * (1 - u) \<le> fl p" and hi: "fl p \<le> p * (1 + u)" by (simp_all add: algebra_simps)
  have "(1::real) / 2 ^ 1022 \<le> 1 / 2 ^ 1021 * (1 - u)" using u by simp
  also have "\<dots> \<le> p * (1 - u)" using assms(2) u by (intro mult_right_mono) simp_all
  finally have "1 / 2 ^ 1022 \<le> fl p" using lo by linarith
  moreover have "p * (1 + u) \<le> 1 / 2 * (1 + 1)" using assms(3) u p0 by (intro mult_mono) simp_all
  then have "fl p \<le> 2 ^ 1023" using hi by simp
  moreover have "0 < (1::real) / 2 ^ 1022" by simp
  ultimately show ?thesis using lo hi two_powr_neg [of 1022] by (simp add: two_powr_1023 u_def)
qed

text \<open>Rounding the probability moves its logarithm by at most \<open>2 * 2 ^ -53\<close>, at most
  \<open>4 * 2 ^ -53\<close> relative to \<open>\<bar>ln p\<bar> \<ge> ln 2 \<ge> 1 / 2\<close>.\<close>

lemma ln_fl_prob_close:
  assumes "rounding_ok fl" "1 / 2 ^ 1021 \<le> p" "p \<le> 1 / 2"
  shows "\<bar>ln (fl p) - ln p\<bar> \<le> 4 / 2 ^ 53 * \<bar>ln p\<bar>"
proof -
  define u where "u = (1 / 2 ^ 53 :: real)"
  have u: "0 < u" "u \<le> 1 / 16" by (simp_all add: u_def)
  have p0: "0 < p" using assms(2) by (smt (verit) zero_less_divide_1_iff zero_less_power)
  from fl_prob [OF assms] have lo: "p * (1 - u) \<le> fl p" and hi: "fl p \<le> p * (1 + u)" and fl0: "0 < fl p"
    by (simp_all add: u_def)
  define t where "t = (fl p - p) / p"
  have "fl p - p \<le> u * p" "p - fl p \<le> u * p" using lo hi by (simp_all add: algebra_simps)
  then have t: "\<bar>t\<bar> \<le> u" using p0 by (simp add: t_def abs_divide pos_divide_le_eq abs_le_iff)
  have "1 + t = fl p / p" using p0 by (simp add: t_def field_simps)
  then have d: "ln (fl p) - ln p = ln (1 + t)" using fl0 p0 by (simp add: ln_div)
  have "\<bar>ln (1 + t) - t\<bar> \<le> 2 * t\<^sup>2" using t u by (intro abs_ln_one_plus_x_minus_x_bound) simp
  moreover have "2 * t\<^sup>2 \<le> u"
  proof -
    have "t\<^sup>2 = \<bar>t\<bar> * \<bar>t\<bar>" by (simp add: power2_eq_square abs_mult [symmetric])
    also have "\<dots> \<le> u * (1 / 16)" using t u by (intro mult_mono) simp_all
    finally show ?thesis using u by simp
  qed
  ultimately have d2: "\<bar>ln (fl p) - ln p\<bar> \<le> 2 * u" using t d by linarith
  have lp: "1 / 2 \<le> - ln p" using ln_prob_range [OF assms(2,3)] by simp
  then have "\<bar>ln p\<bar> = - ln p" by simp
  moreover have "4 * u * (1 / 2) \<le> 4 * u * - ln p" using lp u by (intro mult_left_mono) simp_all
  ultimately have "2 * u \<le> 4 * u * \<bar>ln p\<bar>" by simp
  then show ?thesis using d2 by (simp add: u_def)
qed

text \<open>\<open>math.Log\<close> of the rounded probability: the rounding of the literal and the
  error of the logarithm together stay within \<open>9 * 2 ^ -53\<close>.\<close>

lemma lg_fl_close:
  assumes "rounding_ok fl" "log_ok lg" "1 / 2 ^ 1021 \<le> p" "p \<le> 1 / 2"
  shows "0 < fl p \<and> \<bar>lg (fl p) - ln p\<bar> \<le> 9 / 2 ^ 53 * \<bar>ln p\<bar>"
proof -
  define u where "u = (1 / 2 ^ 53 :: real)"
  have u: "0 < u" "u \<le> 1 / 16" by (simp_all add: u_def)
  from fl_prob [OF assms(1,3,4)] have fl0: "0 < fl p" and r: "2 powr -1022 \<le> fl p \<and> fl p \<le> 2 powr 1023" by auto
  have a: "\<bar>ln (fl p) - ln p\<bar> \<le> 4 * u * \<bar>ln p\<bar>" using ln_fl_prob_close [OF assms(1,3,4)] by (simp add: u_def)
  have "\<bar>lg (fl p) - ln (fl p)\<bar> \<le> 2 powr -51 * \<bar>ln (fl p)\<bar>" using assms(2) r by (simp add: log_ok_def)
  moreover have "(2::real) powr -51 = 4 * u" using two_powr_neg [of 51] by (simp add: u_def)
  ultimately have b: "\<bar>lg (fl p) - ln (fl p)\<bar> \<le> 4 * u * \<bar>ln (fl p)\<bar>" by simp
  from err_chain [OF a b] u have c: "\<bar>lg (fl p) - ln p\<bar> \<le> (4 * u + 4 * u + 4 * u * (4 * u)) * \<bar>ln p\<bar>" by simp
  have uu: "4 * u * (4 * u) \<le> u" using u by (simp add: mult_left_le_one_le)
  have "\<bar>lg (fl p) - ln p\<bar> \<le> 9 * u * \<bar>ln p\<bar>" by (rule err_weaken [OF c]) (use uu in simp)
  with fl0 show ?thesis by (simp add: u_def)
qed

text \<open>The numerator \<open>-float64(n) * math.Log(prob)\<close>, rounded, for \<open>n \<noteq> 0\<close>.\<close>

lemma num_fp_close:
  fixes n :: u32
  assumes "rounding_ok fl" "log_ok lg" "1 / 2 ^ 1021 \<le> p" "p \<le> 1 / 2" "unat n \<noteq> 0"
  shows "\<bar>fl (- real (unat n) * lg (fl p)) - - real (unat n) * ln p\<bar> \<le> 11 / 2 ^ 53 * \<bar>- real (unat n) * ln p\<bar>
         \<and> 1 / 2 \<le> real (unat n) * - ln p \<and> real (unat n) * - ln p \<le> 2 ^ 32 * 1021"
proof -
  let ?N = "real (unat n)"
  have "unat n < 2 ^ 32" using unsigned_less [of n] by simp
  then have N: "1 \<le> ?N" "?N \<le> 2 ^ 32" using assms(5) by (simp_all del: of_nat_unat)
  from lg_fl_close [OF assms(1-4)] have lp: "\<bar>lg (fl p) - ln p\<bar> \<le> 9 / 2 ^ 53 * \<bar>ln p\<bar>" by simp
  from ln_prob_range [OF assms(3,4)] have r: "1 / 2 \<le> - ln p" "- ln p \<le> 1021" by auto
  have "\<bar>- ?N * lg (fl p) - - ?N * ln p\<bar> = ?N * \<bar>lg (fl p) - ln p\<bar>"
    by (simp add: abs_mult abs_minus_commute right_diff_distrib [symmetric] del: of_nat_unat)
  also have "\<dots> \<le> ?N * (9 / 2 ^ 53 * \<bar>ln p\<bar>)" using lp by (intro mult_left_mono) (simp_all del: of_nat_unat)
  finally have a0: "\<bar>- ?N * lg (fl p) - - ?N * ln p\<bar> \<le> 9 / 2 ^ 53 * \<bar>- ?N * ln p\<bar>"
    by (simp add: abs_mult mult.left_commute del: of_nat_unat)
  have xa: "\<bar>- ?N * ln p\<bar> = ?N * - ln p" using r by (simp add: abs_mult del: of_nat_unat)
  have "1 * (1 / 2) \<le> ?N * - ln p" using N r by (intro mult_mono) simp_all
  then have lo: "1 / 2 \<le> ?N * - ln p" by simp
  have hi: "?N * - ln p \<le> 2 ^ 32 * 1021" using N r by (intro mult_mono) simp_all
  have "1 / 2 ^ 63 \<le> \<bar>- ?N * ln p\<bar>" "\<bar>- ?N * ln p\<bar> \<le> 2 ^ 63" unfolding xa using lo hi by simp_all
  then have "\<bar>fl (- ?N * lg (fl p)) - - ?N * ln p\<bar> \<le> (9 + 2) / 2 ^ 53 * \<bar>- ?N * ln p\<bar>"
    using a0 by (intro fl_step_c [OF assms(1)]) simp_all
  with lo hi show ?thesis by simp
qed

text \<open>The denominator \<open>ln2 * ln2\<close>, rounded.\<close>

lemma den_fp_close:
  assumes "rounding_ok fl" "log_ok lg"
  shows "\<bar>fl (lg 2 * lg 2) - ln 2 * ln 2\<bar> \<le> 11 / 2 ^ 53 * \<bar>ln 2 * ln (2::real)\<bar>
         \<and> 1 / 2 * (1 / 2) \<le> ln 2 * ln (2::real) \<and> ln 2 * ln (2::real) \<le> 1 * 1"
proof -
  define u where "u = (1 / 2 ^ 53 :: real)"
  have u: "0 < u" "u \<le> 1 / 16" by (simp_all add: u_def)
  have l2: "1 / 2 \<le> ln (2::real)" "ln (2::real) \<le> 1" using ln_2_bounds by auto
  have l2c: "\<bar>lg 2 - ln 2\<bar> \<le> 4 * u * \<bar>ln 2\<bar>" using lg_2_close [OF assms(2)] by (simp add: u_def)
  from err_mult [OF l2c l2c] u have "\<bar>lg 2 * lg 2 - ln 2 * ln 2\<bar> \<le> (4 * u + 4 * u + 4 * u * (4 * u)) * \<bar>ln 2 * ln (2::real)\<bar>"
    by simp
  then have "\<bar>lg 2 * lg 2 - ln 2 * ln 2\<bar> \<le> 9 * u * \<bar>ln 2 * ln (2::real)\<bar>"
    by (rule err_weaken) (use u in \<open>simp add: mult_left_le_one_le\<close>)
  then have b0: "\<bar>lg 2 * lg 2 - ln 2 * ln 2\<bar> \<le> 9 / 2 ^ 53 * \<bar>ln 2 * ln (2::real)\<bar>" by (simp add: u_def)
  have lo: "1 / 2 * (1 / 2) \<le> ln 2 * ln (2::real)" using l2 by (intro mult_mono) simp_all
  have hi: "ln 2 * ln (2::real) \<le> 1 * 1" using l2 by (intro mult_mono) simp_all
  have "1 / 2 ^ 63 \<le> \<bar>ln 2 * ln (2::real)\<bar>" "\<bar>ln 2 * ln (2::real)\<bar> \<le> 2 ^ 63" using lo hi by simp_all
  then have "\<bar>fl (lg 2 * lg 2) - ln 2 * ln 2\<bar> \<le> (9 + 2) / 2 ^ 53 * \<bar>ln 2 * ln (2::real)\<bar>"
    using b0 by (intro fl_step_c [OF assms(1)]) simp_all
  with lo hi show ?thesis by simp
qed

text \<open>The float value of \<open>optLen\<close> is within \<open>2 ^ -48\<close> (relative) of the exact one:
  the two operands within \<open>11 * 2 ^ -53\<close>, their quotient within \<open>23 * 2 ^ -53\<close>, rounded
  within \<open>25 * 2 ^ -53\<close>.\<close>

lemma optLen_fp_close:
  assumes "rounding_ok fl" "log_ok lg" "1 / 2 ^ 1021 \<le> p" "p \<le> 1 / 2"
  shows "\<bar>optLen_fp fl lg n (fl p) - (- real (unat n) * ln p / (ln 2 * ln 2))\<bar>
           \<le> 1 / 2 ^ 48 * \<bar>- real (unat n) * ln p / (ln 2 * ln 2)\<bar>"
proof (cases "unat n = 0")
  case True
  have "fl 0 = 0" using assms(1) by (simp add: rounding_ok_def)
  then show ?thesis using True by (simp add: optLen_fp_def Let_def)
next
  case False
  let ?N = "real (unat n)"
  from num_fp_close [OF assms False] have a: "\<bar>fl (- ?N * lg (fl p)) - - ?N * ln p\<bar> \<le> 11 / 2 ^ 53 * \<bar>- ?N * ln p\<bar>"
    and nlo: "1 / 2 \<le> ?N * - ln p" and nhi: "?N * - ln p \<le> 2 ^ 32 * 1021" by auto
  from den_fp_close [OF assms(1,2)] have b: "\<bar>fl (lg 2 * lg 2) - ln 2 * ln 2\<bar> \<le> 11 / 2 ^ 53 * \<bar>ln 2 * ln (2::real)\<bar>"
    and dlo: "1 / 2 * (1 / 2) \<le> ln 2 * ln (2::real)" and dhi: "ln 2 * ln (2::real) \<le> 1 * 1" by auto
  have xb0: "ln 2 * ln (2::real) \<noteq> 0" by simp
  from err_div [OF a b _ _ _ xb0]
  have c0: "\<bar>fl (- ?N * lg (fl p)) / fl (lg 2 * lg 2) - - ?N * ln p / (ln 2 * ln 2)\<bar>
            \<le> (11 / 2 ^ 53 + 11 / 2 ^ 53) / (1 - 11 / 2 ^ 53) * \<bar>- ?N * ln p / (ln 2 * ln 2)\<bar>" by simp
  have "(11 / 2 ^ 53 + 11 / 2 ^ 53) / (1 - 11 / 2 ^ 53) \<le> (23 / 2 ^ 53 :: real)" by (simp add: divide_le_eq)
  with c0 have c1: "\<bar>fl (- ?N * lg (fl p)) / fl (lg 2 * lg 2) - - ?N * ln p / (ln 2 * ln 2)\<bar>
            \<le> 23 / 2 ^ 53 * \<bar>- ?N * ln p / (ln 2 * ln 2)\<bar>" by (rule err_weaken)
  have "0 \<le> - ln p" using ln_prob_range [OF assms(3,4)] by simp
  then have q: "\<bar>- ?N * ln p / (ln 2 * ln 2)\<bar> = ?N * - ln p / (ln 2 * ln (2::real))"
    by (simp add: abs_divide abs_mult del: of_nat_unat)
  let ?Q = "?N * - ln p / (ln 2 * ln (2::real))"
  have "?Q \<le> (2 ^ 32 * 1021) / (1 / 2 * (1 / 2))" using nhi dlo nlo by (intro frac_le) (simp_all del: of_nat_unat)
  moreover have "1 / 2 / 1 \<le> ?Q" using nlo dhi dlo by (intro frac_le) simp_all
  moreover have "(1::real) / 2 ^ 63 \<le> 1 / 2 / 1" "(2 ^ 32 * 1021) / (1 / 2 * (1 / 2)) \<le> (2::real) ^ 63" by simp_all
  ultimately have "1 / 2 ^ 63 \<le> ?Q" "?Q \<le> 2 ^ 63" by linarith+
  then have q_r: "1 / 2 ^ 63 \<le> \<bar>- ?N * ln p / (ln 2 * ln 2)\<bar>" "\<bar>- ?N * ln p / (ln 2 * ln 2)\<bar> \<le> 2 ^ 63"
    by (simp_all only: q)
  have "\<bar>fl (fl (- ?N * lg (fl p)) / fl (lg 2 * lg 2)) - - ?N * ln p / (ln 2 * ln 2)\<bar>
        \<le> (23 + 2) / 2 ^ 53 * \<bar>- ?N * ln p / (ln 2 * ln 2)\<bar>"
    using c1 q_r by (intro fl_step_c [OF assms(1)]) simp_all
  moreover have "(23 + 2) / 2 ^ 53 \<le> (1 / 2 ^ 48 :: real)" by simp
  ultimately have "\<bar>fl (fl (- ?N * lg (fl p)) / fl (lg 2 * lg 2)) - - ?N * ln p / (ln 2 * ln 2)\<bar>
        \<le> 1 / 2 ^ 48 * \<bar>- ?N * ln p / (ln 2 * ln 2)\<bar>" by (rule err_weaken)
  then show ?thesis by (simp only: optLen_fp_def Let_def)
qed

text \<open>The float value of \<open>optQty\<close> is within \<open>2 ^ -49\<close> (relative) of the exact one.\<close>

lemma optQty_fp_close:
  assumes "rounding_ok fl" "log_ok lg" "1 / 2 ^ 1021 \<le> p" "p \<le> 1 / 2"
  shows "\<bar>optQty_fp fl lg (fl p) - (- ln p / ln 2)\<bar> \<le> 1 / 2 ^ 49 * \<bar>- ln p / ln 2\<bar>"
proof -
  from lg_fl_close [OF assms] have "\<bar>lg (fl p) - ln p\<bar> \<le> 9 / 2 ^ 53 * \<bar>ln p\<bar>" by simp
  then have a: "\<bar>- lg (fl p) - - ln p\<bar> \<le> 9 / 2 ^ 53 * \<bar>- ln p\<bar>" by (simp add: abs_minus_commute)
  have b: "\<bar>lg 2 - ln 2\<bar> \<le> 4 / 2 ^ 53 * \<bar>ln (2::real)\<bar>" by (rule lg_2_close [OF assms(2)])
  have l20: "ln (2::real) \<noteq> 0" by simp
  from err_div [OF a b _ _ _ l20]
  have c0: "\<bar>- lg (fl p) / lg 2 - - ln p / ln 2\<bar> \<le> (9 / 2 ^ 53 + 4 / 2 ^ 53) / (1 - 4 / 2 ^ 53) * \<bar>- ln p / ln 2\<bar>" by simp
  have "(9 / 2 ^ 53 + 4 / 2 ^ 53) / (1 - 4 / 2 ^ 53) \<le> (14 / 2 ^ 53 :: real)" by (simp add: divide_le_eq)
  with c0 have c1: "\<bar>- lg (fl p) / lg 2 - - ln p / ln 2\<bar> \<le> 14 / 2 ^ 53 * \<bar>- ln p / ln 2\<bar>" by (rule err_weaken)
  from ln_prob_range [OF assms(3,4)] have r: "1 / 2 \<le> - ln p" "- ln p \<le> 1021" by auto
  have l2: "1 / 2 \<le> ln (2::real)" "ln (2::real) \<le> 1" using ln_2_bounds by auto
  have "- ln p / ln 2 \<le> 1021 / (1 / 2)" using r l2 by (intro frac_le) simp_all
  moreover have "1 / 2 / 1 \<le> - ln p / ln 2" using r l2 by (intro frac_le) simp_all
  moreover have "(1::real) / 2 ^ 63 \<le> 1 / 2 / 1" "1021 / (1 / 2) \<le> (2::real) ^ 63" by simp_all
  ultimately have "1 / 2 ^ 63 \<le> - ln p / ln 2" "- ln p / ln 2 \<le> 2 ^ 63" by linarith+
  moreover have "0 \<le> - ln p / ln 2" using r by (intro divide_nonneg_pos) simp_all
  ultimately have q_r: "1 / 2 ^ 63 \<le> \<bar>- ln p / ln 2\<bar>" "\<bar>- ln p / ln 2\<bar> \<le> 2 ^ 63"
    by (simp_all only: abs_of_nonneg)
  have "\<bar>fl (- lg (fl p) / lg 2) - - ln p / ln 2\<bar> \<le> (14 + 2) / 2 ^ 53 * \<bar>- ln p / ln 2\<bar>"
    using c1 q_r by (intro fl_step_c [OF assms(1)]) simp_all
  moreover have "(14 + 2) / 2 ^ 53 \<le> (1 / 2 ^ 49 :: real)" by simp
  ultimately have "\<bar>fl (- lg (fl p) / lg 2) - - ln p / ln 2\<bar> \<le> 1 / 2 ^ 49 * \<bar>- ln p / ln 2\<bar>" by (rule err_weaken)
  then show ?thesis by (simp only: optQty_fp_def)
qed

text \<open>The float value of \<open>optQty\<close> lies in the interval of relative width \<open>2 ^ -49\<close>
  around \<open>log 2 (1 / p)\<close>.\<close>

lemma optQty_fp_between:
  assumes "rounding_ok fl" "log_ok lg" "1 / 2 ^ 1021 \<le> p" "p \<le> 1 / 2"
  shows "(- ln p / ln 2) - 1 / 2 ^ 49 * (- ln p / ln 2) \<le> optQty_fp fl lg (fl p)
         \<and> optQty_fp fl lg (fl p) \<le> (- ln p / ln 2) + 1 / 2 ^ 49 * (- ln p / ln 2)"
proof -
  have q0: "0 \<le> - ln p / ln 2" using ln_prob_range [OF assms(3,4)] by (intro divide_nonneg_pos) simp_all
  have "\<bar>optQty_fp fl lg (fl p) - (- ln p / ln 2)\<bar> \<le> 1 / 2 ^ 49 * (- ln p / ln 2)"
    using optQty_fp_close [OF assms] q0 by simp
  then show ?thesis by (simp only: abs_le_iff) linarith
qed

text \<open>A value within relative error \<open>e\<close> of \<open>q\<close> has the ceiling \<open>k\<close> when the whole
  interval around \<open>q\<close> lies in \<open>(k - 1, k]\<close>.\<close>

lemma ceiling_close:
  fixes q y e :: real
  assumes "\<bar>y - q\<bar> \<le> e * \<bar>q\<bar>" "0 \<le> q" "real k - 1 < q - e * q" "q + e * q \<le> real k"
  shows "\<lceil>y\<rceil> = int k"
proof (rule ceiling_unique)
  have "\<bar>y - q\<bar> \<le> e * q" using assms(1,2) by simp
  then have "y - q \<le> e * q" "q - y \<le> e * q" by (simp_all only: abs_le_iff minus_diff_eq)
  then show "of_int (int k) - 1 < y" "y \<le> of_int (int k)" using assms(3,4) by simp_all
qed

text \<open>Where the exact value is far enough from an integer, the float planner and the exact
  one agree.\<close>

lemma optimalBitLen_fp_eq:
  assumes "rounding_ok fl" "log_ok lg" "1 / 2 ^ 1021 \<le> p" "p \<le> 1 / 2" "k < 2 ^ 64"
    and "real k - 1 < (- real (unat n) * ln p / (ln 2 * ln 2)) - 1 / 2 ^ 48 * (- real (unat n) * ln p / (ln 2 * ln 2))"
    and "(- real (unat n) * ln p / (ln 2 * ln 2)) + 1 / 2 ^ 48 * (- real (unat n) * ln p / (ln 2 * ln 2)) \<le> real k"
  shows "optimalBitLen_fp fl lg n (fl p) = Some (word_of_nat k)"
proof -
  let ?q = "- real (unat n) * ln p / (ln 2 * ln 2)"
  have "0 \<le> real (unat n) * - ln p / (ln 2 * ln 2)"
    using ln_prob_range [OF assms(3,4)] by (intro divide_nonneg_pos mult_nonneg_nonneg) (simp_all del: of_nat_unat)
  then have q0: "0 \<le> ?q" by (simp only: mult_minus_left mult_minus_right)
  have fp: "0 < fl p" using lg_fl_close [OF assms(1-4)] by simp
  have "\<lceil>optLen_fp fl lg n (fl p)\<rceil> = int k"
    using optLen_fp_close [OF assms(1-4), of n] q0 assms(6,7) by (rule ceiling_close)
  then show ?thesis using fp assms(5) by (simp add: optimalBitLen_fp_def go_float_to_uint_nat)
qed

lemma optimalHashQty_fp_eq:
  assumes "rounding_ok fl" "log_ok lg" "1 / 2 ^ 1021 \<le> p" "p \<le> 1 / 2" "k < 256"
    and "real k - 1 < (- ln p / ln 2) - 1 / 2 ^ 49 * (- ln p / ln 2)"
    and "(- ln p / ln 2) + 1 / 2 ^ 49 * (- ln p / ln 2) \<le> real k"
  shows "optimalHashQty_fp fl lg (fl p) = Some (word_of_nat k)"
proof -
  have q0: "0 \<le> - ln p / ln 2" using ln_prob_range [OF assms(3,4)] by (intro divide_nonneg_pos) simp_all
  have fp: "0 < fl p" using lg_fl_close [OF assms(1-4)] by simp
  have "\<lceil>optQty_fp fl lg (fl p)\<rceil> = int k"
    using optQty_fp_close [OF assms(1-4)] q0 assms(6,7) by (rule ceiling_close)
  then show ?thesis using fp assms(5) by (simp add: optimalHashQty_fp_def go_float_to_uint_nat)
qed

text \<open>The float planner at a probability \<open>10 ^ -k\<close>: \<open>c\<close> is its result when the
  bounds on \<open>ln 2\<close> and \<open>ln 10\<close> put the exact value, widened by the float error, in
  \<open>(c - 1, c]\<close>.\<close>

lemma optimalBitLen_fp_ln10:
  assumes "rounding_ok fl" "log_ok lg" "1 / 2 ^ 1021 \<le> p" "p \<le> 1 / 2" "ln p = - (real k * ln 10)" "c < 2 ^ 64"
    and "real c - 1 < (1 - 1 / 2 ^ 48) * (real (unat n) * real k * (2302585092994040693 / 10 ^ 18) / (693147180559945671 / 10 ^ 18) ^ 2)"
    and "(1 + 1 / 2 ^ 48) * (real (unat n) * real k * (2302585092994046889 / 10 ^ 18) / (693147180559943812 / 10 ^ 18) ^ 2) \<le> real c"
  shows "optimalBitLen_fp fl lg n (fl p) = Some (word_of_nat c)"
proof -
  let ?L = "ln (2::real)" and ?T = "ln (10::real)" and ?m = "real (unat n) * real k"
  let ?q = "- real (unat n) * ln p / (?L * ?L)"
  let ?lo = "?m * (2302585092994040693 / 10 ^ 18) / (693147180559945671 / 10 ^ 18) ^ 2"
  let ?hi = "?m * (2302585092994046889 / 10 ^ 18) / (693147180559943812 / 10 ^ 18) ^ 2"
  have b: "693147180559943812 / 10 ^ 18 \<le> ?L" "?L \<le> 693147180559945671 / 10 ^ 18"
    "2302585092994040693 / 10 ^ 18 \<le> ?T" "?T \<le> 2302585092994046889 / 10 ^ 18"
    using ln_2_10_bounds by simp_all
  have m: "0 \<le> ?m" by (intro mult_nonneg_nonneg) (simp_all del: of_nat_unat)
  have q: "?q = ?m * ?T / ?L ^ 2" using assms(5) by (simp add: power2_eq_square)
  have "?lo \<le> ?m * ?T / ?L ^ 2"
    using b m by (intro frac_le mult_left_mono power_mono mult_nonneg_nonneg) (simp_all del: of_nat_unat)
  then have lo: "?lo \<le> ?q" by (simp only: q)
  have "?m * ?T / ?L ^ 2 \<le> ?hi"
    using b m by (intro frac_le mult_left_mono power_mono mult_nonneg_nonneg) (simp_all del: of_nat_unat)
  then have hi: "?q \<le> ?hi" by (simp only: q)
  have "(1 - 1 / 2 ^ 48) * ?lo \<le> (1 - 1 / 2 ^ 48) * ?q" using lo by (intro mult_left_mono) simp_all
  then have 1: "real c - 1 < ?q - 1 / 2 ^ 48 * ?q" using assms(7) by (simp add: algebra_simps)
  have "(1 + 1 / 2 ^ 48) * ?q \<le> (1 + 1 / 2 ^ 48) * ?hi" using hi by (intro mult_left_mono) simp_all
  then have 2: "?q + 1 / 2 ^ 48 * ?q \<le> real c" using assms(8) by (simp add: algebra_simps)
  show ?thesis using 1 2 by (rule optimalBitLen_fp_eq [OF assms(1-4,6)])
qed

lemma log2_between:
  assumes "0 < x" "0 < b" "0 < d" "2 ^ a \<le> x ^ b" "x ^ d \<le> (2::real) ^ c"
  shows "real a / real b \<le> log 2 x \<and> log 2 x \<le> real c / real d"
proof
  have "log 2 (2 ^ a) \<le> log 2 (x ^ b)" using assms(1,4) by (subst log_le_cancel_iff) simp_all
  then have "real a \<le> real b * log 2 x" using assms(1) by (simp add: log_nat_power)
  then show "real a / real b \<le> log 2 x" using assms(2) by (simp add: divide_le_eq mult.commute)
  have "log 2 (x ^ d) \<le> log 2 (2 ^ c)" using assms(1,5) by (subst log_le_cancel_iff) simp_all
  then have "real d * log 2 x \<le> real c" using assms(1) by (simp add: log_nat_power)
  then show "log 2 x \<le> real c / real d" using assms(3) by (simp add: le_divide_eq mult.commute)
qed

text \<open>The float hash count: \<open>k\<close> is its result when powers of two put \<open>log 2 (1 / p)\<close>,
  widened by the float error, in \<open>(k - 1, k]\<close>.\<close>

lemma optimalHashQty_fp_pow2:
  assumes "rounding_ok fl" "log_ok lg" "1 / 2 ^ 1021 \<le> p" "p \<le> 1 / 2" "k < 256" "0 < b" "0 < d"
    and "2 ^ a \<le> (1 / p) ^ b" "(1 / p) ^ d \<le> 2 ^ c"
    and "real k - 1 < (1 - 1 / 2 ^ 49) * (real a / real b)" "(1 + 1 / 2 ^ 49) * (real c / real d) \<le> real k"
  shows "optimalHashQty_fp fl lg (fl p) = Some (word_of_nat k)"
proof -
  have p0: "0 < p" using assms(3) by (smt (verit) zero_less_divide_1_iff zero_less_power)
  have q: "- ln p / ln 2 = log 2 (1 / p)" using p0 by (simp add: log_def ln_div)
  from log2_between [OF _ assms(6-9)] p0
  have lo: "real a / real b \<le> - ln p / ln 2" and hi: "- ln p / ln 2 \<le> real c / real d" by (simp_all only: q) simp_all
  have "(1 - 1 / 2 ^ 49) * (real a / real b) \<le> (1 - 1 / 2 ^ 49) * (- ln p / ln 2)" using lo by (intro mult_left_mono) simp_all
  then have 1: "real k - 1 < (- ln p / ln 2) - 1 / 2 ^ 49 * (- ln p / ln 2)" using assms(10) by (simp add: algebra_simps)
  have "(1 + 1 / 2 ^ 49) * (- ln p / ln 2) \<le> (1 + 1 / 2 ^ 49) * (real c / real d)" using hi by (intro mult_left_mono) simp_all
  then have 2: "(- ln p / ln 2) + 1 / 2 ^ 49 * (- ln p / ln 2) \<le> real k" using assms(11) by (simp add: algebra_simps)
  show ?thesis using 1 2 by (rule optimalHashQty_fp_eq [OF assms(1-5)])
qed

text \<open>With exact arithmetic and the exact logarithm the float planner is the planner of
  \<open>Capacity\<close>.\<close>

lemma optimalBitLen_exact: "optimalBitLen n p = optimalBitLen_fp (\<lambda>x. x) ln n p"
  by (simp add: optimalBitLen_def optimalBitLen_fp_def optLen_fp_def Let_def)

lemma optimalHashQty_exact: "optimalHashQty p = optimalHashQty_fp (\<lambda>x. x) ln p"
  by (simp add: optimalHashQty_def optimalHashQty_fp_def optQty_fp_def)

text \<open>The float planner at the inputs of the tests.\<close>

lemma optimalBitLen_fp_table:
  assumes "rounding_ok fl" "log_ok lg"
  shows "optimalBitLen_fp fl lg 0 (fl 0.01) = Some 0
   \<and> optimalBitLen_fp fl lg 1000000 (fl 0.01) = Some 9585059
   \<and> optimalBitLen_fp fl lg 2147483647 (fl 0.01) = Some 20583756121
   \<and> optimalBitLen_fp fl lg 4294967295 (fl 0.01) = Some 41167512252
   \<and> optimalBitLen_fp fl lg 1 (fl 0.01) = Some 10
   \<and> optimalBitLen_fp fl lg 6 (fl 0.01) = Some 58
   \<and> optimalBitLen_fp fl lg 7 (fl 0.01) = Some 68
   \<and> optimalBitLen_fp fl lg 4294967295 (fl 0.001) = Some 61751268378"
proof (intro conjI)
  have p: "1 / 2 ^ 1021 \<le> (1 / 100 :: real)" "(1 / 100 :: real) \<le> 1 / 2" by simp_all
  have p3: "1 / 2 ^ 1021 \<le> (1 / 1000 :: real)" "(1 / 1000 :: real) \<le> 1 / 2" by simp_all
  have "fl 0 = 0" using assms(1) by (simp add: rounding_ok_def)
  moreover have "0 < fl (1 / 100)" using lg_fl_close [OF assms p] by simp
  ultimately show "optimalBitLen_fp fl lg 0 (fl 0.01) = Some 0"
    by (simp add: optimalBitLen_fp_def optLen_fp_def go_float_to_uint_def)
  show "optimalBitLen_fp fl lg 1000000 (fl 0.01) = Some 9585059"
    using optimalBitLen_fp_ln10 [OF assms p ln_hundredth, of 9585059 1000000] by (simp add: power_divide)
  show "optimalBitLen_fp fl lg 2147483647 (fl 0.01) = Some 20583756121"
    using optimalBitLen_fp_ln10 [OF assms p ln_hundredth, of 20583756121 2147483647] by (simp add: power_divide)
  show "optimalBitLen_fp fl lg 4294967295 (fl 0.01) = Some 41167512252"
    using optimalBitLen_fp_ln10 [OF assms p ln_hundredth, of 41167512252 4294967295] by (simp add: power_divide)
  show "optimalBitLen_fp fl lg 1 (fl 0.01) = Some 10"
    using optimalBitLen_fp_ln10 [OF assms p ln_hundredth, of 10 1] by (simp add: power_divide)
  show "optimalBitLen_fp fl lg 6 (fl 0.01) = Some 58"
    using optimalBitLen_fp_ln10 [OF assms p ln_hundredth, of 58 6] by (simp add: power_divide)
  show "optimalBitLen_fp fl lg 7 (fl 0.01) = Some 68"
    using optimalBitLen_fp_ln10 [OF assms p ln_hundredth, of 68 7] by (simp add: power_divide)
  show "optimalBitLen_fp fl lg 4294967295 (fl 0.001) = Some 61751268378"
    using optimalBitLen_fp_ln10 [OF assms p3 ln_thousandth, of 61751268378 4294967295] by (simp add: power_divide)
qed

lemma optimalHashQty_fp_table:
  assumes "rounding_ok fl" "log_ok lg"
  shows "optimalHashQty_fp fl lg (fl 0.1) = Some 4 \<and> optimalHashQty_fp fl lg (fl 0.01) = Some 7
   \<and> optimalHashQty_fp fl lg (fl 0.0123) = Some 7 \<and> optimalHashQty_fp fl lg (fl 0.001) = Some 10
   \<and> optimalHashQty_fp fl lg (fl 0.0001001231231) = Some 14"
proof (intro conjI)
  show "optimalHashQty_fp fl lg (fl 0.1) = Some 4"
    using optimalHashQty_fp_pow2 [OF assms, of "1 / 10" 4 4 4 13 14] by simp
  show "optimalHashQty_fp fl lg (fl 0.01) = Some 7"
    using optimalHashQty_fp_pow2 [OF assms, of "1 / 100" 7 4 4 26 27] by simp
  show "optimalHashQty_fp fl lg (fl 0.0123) = Some 7"
    using optimalHashQty_fp_pow2 [OF assms, of "123 / 10000" 7 4 4 25 26] by (simp add: power_divide)
  show "optimalHashQty_fp fl lg (fl 0.001) = Some 10"
    using optimalHashQty_fp_pow2 [OF assms, of "1 / 1000" 10 32 32 318 319] by simp
  show "optimalHashQty_fp fl lg (fl 0.0001001231231) = Some 14"
    using optimalHashQty_fp_pow2 [OF assms, of "1001231231 / 10000000000000" 14 4 4 53 54] by (simp add: power_divide)
qed

subsection \<open>Properties of the float planner\<close>

text \<open>C28: For a probability in \<open>[2 ^ -1021, 1 / 2]\<close>, the value
  \<open>optLen\<close> that \<open>optimalBitLen\<close> computes in \<open>float64\<close> is within a relative
  \<open>2 ^ -48\<close> of \<open>-n * ln p / ln 2 ^ 2\<close>, and the value \<open>optQty\<close> of
  \<open>optimalHashQty\<close> within \<open>2 ^ -49\<close> of \<open>-ln p / ln 2\<close>, for every rounding with
  relative error \<open>2 ^ -53\<close> and \<open>math.Log\<close> within two ulp.\<close>

theorem planner_fp_error:
  assumes "rounding_ok fl" "log_ok lg" "1 / 2 ^ 1021 \<le> p" "p \<le> 1 / 2"
  shows "\<bar>optLen_fp fl lg n (fl p) - (- real (unat n) * ln p / (ln 2 * ln 2))\<bar>
           \<le> 1 / 2 ^ 48 * (- real (unat n) * ln p / (ln 2 * ln 2))
         \<and> \<bar>optQty_fp fl lg (fl p) - (- ln p / ln 2)\<bar> \<le> 1 / 2 ^ 49 * (- ln p / ln 2)"
proof
  have r: "0 \<le> - ln p" using ln_prob_range [OF assms(3,4)] by simp
  have "0 \<le> real (unat n) * - ln p / (ln 2 * ln 2)" using r by (intro divide_nonneg_pos mult_nonneg_nonneg) (simp_all del: of_nat_unat)
  then have q0: "0 \<le> - real (unat n) * ln p / (ln 2 * ln 2)" by (simp only: mult_minus_left mult_minus_right)
  show "\<bar>optLen_fp fl lg n (fl p) - (- real (unat n) * ln p / (ln 2 * ln 2))\<bar>
           \<le> 1 / 2 ^ 48 * (- real (unat n) * ln p / (ln 2 * ln 2))"
    using optLen_fp_close [OF assms, of n] by (simp only: abs_of_nonneg [OF q0])
  have "0 \<le> - ln p / ln 2" using r by (intro divide_nonneg_pos) simp_all
  then show "\<bar>optQty_fp fl lg (fl p) - (- ln p / ln 2)\<bar> \<le> 1 / 2 ^ 49 * (- ln p / ln 2)"
    using optQty_fp_close [OF assms] by (simp only: abs_of_nonneg)
qed

theorem planner_fp_error_witness:
  "rounding_ok fl64 \<and> log_ok ln \<and> 1 / 2 ^ 1021 \<le> (1 / 100 :: real) \<and> (1 / 100 :: real) \<le> 1 / 2
   \<and> \<bar>optLen_fp fl64 ln 1000000 (fl64 (1 / 100)) - (- real (unat (1000000 :: u32)) * ln (1 / 100) / (ln 2 * ln 2))\<bar>
        \<le> 1 / 2 ^ 48 * (- real (unat (1000000 :: u32)) * ln (1 / 100) / (ln 2 * ln 2))"
proof -
  have h: "1 / 2 ^ 1021 \<le> (1 / 100 :: real)" "(1 / 100 :: real) \<le> 1 / 2" by simp_all
  show ?thesis using planner_fp_error [OF fl64_ok log_ok_ln h, of 1000000] fl64_ok log_ok_ln h by blast
qed

text \<open>C26: For a probability in \<open>[2 ^ -254, 1 / 2]\<close>,
  \<open>optimalHashQty\<close> in \<open>float64\<close> returns a hash count \<open>k \<ge> 1\<close> that fits its \<open>byte\<close>
  and is \<open>\<lceil>log 2 (1 / p)\<rceil>\<close> up to the rounding: with \<open>q = -ln p / ln 2 = log 2 (1 / p)\<close>,
  \<open>\<lceil>q - 2 ^ -49 * q\<rceil> \<le> k \<le> \<lceil>q + 2 ^ -49 * q\<rceil>\<close>. So \<open>k = \<lceil>q\<rceil>\<close> unless an integer
  lies within \<open>2 ^ -49 * q\<close> of \<open>q\<close>; at an exact power of two, where \<open>q\<close> is an integer,
  \<open>k\<close> may be \<open>q\<close> or \<open>q + 1\<close>, for every rounding and logarithm within the bounds.\<close>

theorem optimalHashQty_fp_bounds:
  assumes "rounding_ok fl" "log_ok lg" "1 / 2 ^ 254 \<le> p" "p \<le> 1 / 2"
  shows "\<exists>k. optimalHashQty_fp fl lg (fl p) = Some k \<and> 1 \<le> unat k
             \<and> \<lceil>(- ln p / ln 2) - 1 / 2 ^ 49 * (- ln p / ln 2)\<rceil> \<le> int (unat k)
             \<and> int (unat k) \<le> \<lceil>(- ln p / ln 2) + 1 / 2 ^ 49 * (- ln p / ln 2)\<rceil>"
proof -
  let ?q = "- ln p / ln 2" and ?y = "optQty_fp fl lg (fl p)"
  have p1: "1 / 2 ^ 1021 \<le> p" using assms(3) by (rule order_trans [rotated]) simp
  have qr: "real 1 \<le> ?q" "?q \<le> real 254" using neg_log2_range [of 254 p 1] assms(3,4) by simp_all
  from optQty_fp_between [OF assms(1,2) p1 assms(4)]
  have lo: "?q - 1 / 2 ^ 49 * ?q \<le> ?y" and hi: "?y \<le> ?q + 1 / 2 ^ 49 * ?q" by auto
  have y: "0 < ?y" "?y \<le> 255" using lo hi qr by simp_all
  then have c: "1 \<le> \<lceil>?y\<rceil>" "\<lceil>?y\<rceil> \<le> 255" by (simp_all only: one_le_ceiling ceiling_le_numeral)
  have fp: "0 < fl p" using lg_fl_close [OF assms(1,2) p1 assms(4)] by simp
  have eq: "optimalHashQty_fp fl lg (fl p) = Some (word_of_int \<lceil>?y\<rceil>)"
    using c fp by (simp add: optimalHashQty_fp_def go_float_to_uint_int)
  have u: "unat (word_of_int \<lceil>?y\<rceil> :: byte) = nat \<lceil>?y\<rceil>" using c by (intro unat_word_of_int_in_range) simp_all
  have m: "\<lceil>?q - 1 / 2 ^ 49 * ?q\<rceil> \<le> \<lceil>?y\<rceil>" "\<lceil>?y\<rceil> \<le> \<lceil>?q + 1 / 2 ^ 49 * ?q\<rceil>"
    using lo hi by (simp_all add: ceiling_mono)
  have k1: "1 \<le> unat (word_of_int \<lceil>?y\<rceil> :: byte)" using u c(1) by (simp add: le_nat_iff del: one_le_ceiling)
  have k: "int (unat (word_of_int \<lceil>?y\<rceil> :: byte)) = \<lceil>?y\<rceil>" using u c(1) by simp
  show ?thesis using eq k1 m k by (intro exI [of _ "word_of_int \<lceil>?y\<rceil>"]) simp
qed

theorem optimalHashQty_fp_bounds_witness:
  "rounding_ok fl64 \<and> log_ok ln \<and> 1 / 2 ^ 254 \<le> (1 / 100 :: real) \<and> (1 / 100 :: real) \<le> 1 / 2
   \<and> (\<exists>k. optimalHashQty_fp fl64 ln (fl64 (1 / 100)) = Some k \<and> 1 \<le> unat k
          \<and> \<lceil>(- ln (1 / 100) / ln 2) - 1 / 2 ^ 49 * (- ln (1 / 100) / ln (2::real))\<rceil> \<le> int (unat k)
          \<and> int (unat k) \<le> \<lceil>(- ln (1 / 100) / ln 2) + 1 / 2 ^ 49 * (- ln (1 / 100) / ln (2::real))\<rceil>)"
proof -
  have h: "1 / 2 ^ 254 \<le> (1 / 100 :: real)" "(1 / 100 :: real) \<le> 1 / 2" by simp_all
  show ?thesis using optimalHashQty_fp_bounds [OF fl64_ok log_ok_ln h] fl64_ok log_ok_ln h by blast
qed

text \<open>C29: For a probability in \<open>[2 ^ -1021, 2 ^ -256]\<close>, the
  hash count \<open>math.Ceil(-math.Log(prob) / math.Log(2))\<close> computed in \<open>float64\<close> is at least
  256 and does not fit the \<open>byte\<close> the code converts it to: the code does not clamp it,
  and Go leaves the result of such a conversion implementation-dependent (the model:
  \<open>None\<close>), for every rounding and logarithm within the bounds.\<close>

theorem optimalHashQty_fp_overflow:
  assumes "rounding_ok fl" "log_ok lg" "1 / 2 ^ 1021 \<le> p" "p \<le> 1 / 2 ^ 256"
  shows "optimalHashQty_fp fl lg (fl p) = None"
proof -
  let ?q = "- ln p / ln 2" and ?y = "optQty_fp fl lg (fl p)"
  have p2: "p \<le> 1 / 2" using assms(4) by (rule order_trans) simp
  have qr: "real 256 \<le> ?q" using neg_log2_range [of 1021 p 256] assms(3,4) by simp
  from optQty_fp_between [OF assms(1-3) p2] have lo: "?q - 1 / 2 ^ 49 * ?q \<le> ?y" by simp
  have "255 < ?y" using lo qr by simp
  then have c: "256 \<le> \<lceil>?y\<rceil>" by (simp add: le_ceiling_iff)
  have fp: "0 < fl p" using lg_fl_close [OF assms(1-3) p2] by simp
  show ?thesis using c fp by (simp add: optimalHashQty_fp_def go_float_to_uint_int)
qed

theorem optimalHashQty_fp_overflow_witness:
  "rounding_ok fl64 \<and> log_ok ln \<and> 1 / 2 ^ 1021 \<le> (1 / 2 ^ 300 :: real) \<and> (1 / 2 ^ 300 :: real) \<le> 1 / 2 ^ 256
   \<and> optimalHashQty_fp fl64 ln (fl64 (1 / 2 ^ 300)) = None"
proof -
  have h: "1 / 2 ^ 1021 \<le> (1 / 2 ^ 300 :: real)" "(1 / 2 ^ 300 :: real) \<le> 1 / 2 ^ 256" by simp_all
  show ?thesis using optimalHashQty_fp_overflow [OF fl64_ok log_ok_ln h] fl64_ok log_ok_ln h by blast
qed

text \<open>C32: The four rows of \<open>TestOptimalBitLen\<close> hold in
  \<open>float64\<close>: with the probability literal 0.01 rounded, \<open>math.Log\<close> within two ulp
  and every operation rounded, \<open>optimalBitLen\<close> returns 9585059, 0, 20583756121 and
  41167512252 bits for 1000000, 0, 2147483647 and 4294967295 elements.\<close>

theorem TestOptimalBitLen_fp_passes:
  assumes "rounding_ok fl" "log_ok lg"
  shows "TestOptimalBitLen_fp fl lg"
  using optimalBitLen_fp_table [OF assms] by (simp add: TestOptimalBitLen_fp_def TestOptimalBitLen_cases_def)

text \<open>C33: The five rows of \<open>TestOptimalHashQty\<close> hold
  in \<open>float64\<close>: 0.1 gives 4 hash functions, 0.01 and 0.0123 give 7, 0.001 gives 10 and
  0.0001001231231 gives 14, for every rounding and logarithm within the error bounds.\<close>

theorem TestOptimalHashQty_fp_passes:
  assumes "rounding_ok fl" "log_ok lg"
  shows "TestOptimalHashQty_fp fl lg"
  using optimalHashQty_fp_table [OF assms] by (simp add: TestOptimalHashQty_fp_def TestOptimalHashQty_cases_def)

theorem TestOptimalBitLen_fp_witness: "rounding_ok fl64 \<and> log_ok ln \<and> TestOptimalBitLen_fp fl64 ln"
  using TestOptimalBitLen_fp_passes [OF fl64_ok log_ok_ln] fl64_ok log_ok_ln by blast

theorem TestOptimalHashQty_fp_witness: "rounding_ok fl64 \<and> log_ok ln \<and> TestOptimalHashQty_fp fl64 ln"
  using TestOptimalHashQty_fp_passes [OF fl64_ok log_ok_ln] fl64_ok log_ok_ln by blast

end
