(* ===== verification/New_Float.thy ===== *)
theory New_Float
  imports Package_Tests Capacity_Float
begin

text \<open>
  \<open>New\<close> of \<open>bloom.go\<close> in \<open>float64\<close>: \<open>New_with\<close> of \<open>Bloom_Filter\<close> with the float planner
  of \<open>Capacity_Float\<close>, for a rounding \<open>fl\<close> and a logarithm \<open>lg\<close>. With exact arithmetic it
  is the \<open>New\<close> of \<open>Bloom_Filter\<close>. The tests \<open>TestNew\<close> and \<open>TestNew_error\<close> pass with every
  rounding and logarithm within the bounds of \<open>rounding_ok\<close> and \<open>log_ok\<close>; the probability
  literals of their tables, in the arguments and in the wanted \<open>Filter\<close>s alike, are
  rounded to \<open>float64\<close> as the compiler rounds them.
\<close>

definition New_fp :: "(real \<Rightarrow> real) \<Rightarrow> (real \<Rightarrow> real) \<Rightarrow> u32 \<Rightarrow> real \<Rightarrow> (error + Filter) option" where
  "New_fp fl lg = New_with (optimalHashQty_fp fl lg) (optimalBitLen_fp fl lg)"

definition TestNew_fp :: "(real \<Rightarrow> real) \<Rightarrow> (real \<Rightarrow> real) \<Rightarrow> bool" where
  "TestNew_fp fl lg =
     list_all (\<lambda>(name, n, p, want).
                 case New_fp fl lg n (fl p) of
                   Some (Inr got) \<Rightarrow>
                     n_elems got = n_elems want \<and> prob got = fl (prob want) \<and> bitlen got = bitlen want
                     \<and> hashqty got = hashqty want \<and> length (bitstore got) = length (bitstore want)
                 | _ \<Rightarrow> False) TestNew_cases"

definition TestNew_error_fp :: "(real \<Rightarrow> real) \<Rightarrow> (real \<Rightarrow> real) \<Rightarrow> bool" where
  "TestNew_error_fp fl lg =
     list_all (\<lambda>(n, p, want). New_fp fl lg n (fl p) = Some (Inl want)) TestNew_error_cases"

lemma New_exact: "New n p = New_fp (\<lambda>x. x) ln n p"
proof -
  have "optimalHashQty = optimalHashQty_fp (\<lambda>x. x) ln" "optimalBitLen = optimalBitLen_fp (\<lambda>x. x) ln"
    using optimalHashQty_exact optimalBitLen_exact by blast+
  then show ?thesis by (simp add: New_def New_fp_def)
qed

lemma New_fp_params:
  assumes "n \<noteq> 0" "0 < p" "optimalHashQty_fp fl lg p = Some q" "optimalBitLen_fp fl lg n p = Some bl"
  shows "New_fp fl lg n p = Some (Inr \<lparr>prob = p, bitlen = bl, hashqty = q, n_elems = n,
                              bitstore = replicate ((unat bl + 63) div 64) 0\<rparr>)"
  unfolding New_fp_def
  by (rule New_with_params [where hq = "optimalHashQty_fp fl lg" and blf = "optimalBitLen_fp fl lg", OF assms])

text \<open>The rounded literals of \<open>TestNew_error\<close>: \<open>0\<close> stays zero and \<open>-0.1\<close> stays negative.\<close>

lemma fl_error_literals:
  assumes "rounding_ok fl"
  shows "fl 0 = 0 \<and> fl (- (1 / 10)) < 0"
proof
  show "fl 0 = 0" using assms by (simp add: rounding_ok_def)
  have "\<bar>fl (- (1 / 10)) - - (1 / 10)\<bar> \<le> 1 / 2 ^ 53 * \<bar>- (1 / 10 :: real)\<bar>"
    by (rule fl_close [OF assms]) simp_all
  then have "fl (- (1 / 10)) - - (1 / 10) \<le> 1 / 2 ^ 53 * \<bar>- (1 / 10 :: real)\<bar>" by (rule abs_le_D1)
  then have "fl (- (1 / 10)) \<le> - (1 / 10) + 1 / 2 ^ 53 * (1 / 10)" by simp
  moreover have "- (1 / 10) + 1 / 2 ^ 53 * (1 / 10) < (0::real)" by simp
  ultimately show "fl (- (1 / 10)) < 0" by linarith
qed

text \<open>C31: The tests of \<open>New\<close> pass in \<open>float64\<close>: \<open>TestNew\<close>,
  with the bit lengths, hash counts and bucket counts of its five cases (up to 4294967295
  elements at probabilities 0.01 and 0.001), and \<open>TestNew_error\<close>, with its three rejected
  arguments, for every rounding with relative error \<open>2 ^ -53\<close> and every \<open>math.Log\<close>
  within two ulp.\<close>

theorem TestNew_fp_passes:
  assumes "rounding_ok fl" "log_ok lg"
  shows "TestNew_fp fl lg \<and> TestNew_error_fp fl lg"
proof
  have p: "0 < fl (1 / 100)" "0 < fl (1 / 1000)"
    using lg_fl_close [OF assms, of "1 / 100"] lg_fl_close [OF assms, of "1 / 1000"] by simp_all
  show "TestNew_fp fl lg"
    using optimalBitLen_fp_table [OF assms] optimalHashQty_fp_table [OF assms] p
    by (simp add: TestNew_fp_def TestNew_cases_def New_fp_params)
  show "TestNew_error_fp fl lg"
    using fl_error_literals [OF assms(1)]
    by (simp add: TestNew_error_fp_def TestNew_error_cases_def New_fp_def New_with_def)
qed

theorem TestNew_fp_witness: "rounding_ok fl64 \<and> log_ok ln \<and> TestNew_fp fl64 ln \<and> TestNew_error_fp fl64 ln"
  using TestNew_fp_passes [OF fl64_ok log_ok_ln] fl64_ok log_ok_ln by blast

end
