(* ===== verification/Concurrency.thy ===== *)
theory Concurrency
  imports Lifecycle Package_Tests
begin

text \<open>
  Concurrent \<open>Add\<close> calls on one filter. \<open>Filter\<close> is documented as not safe for concurrent
  use, and the specification names the race: the loop of \<open>Add\<close> updates a bucket with
  \<open>bf.bitstore[index] |= mask\<close>, which is a load of the bucket, an \<open>OR\<close> and a store, not one
  atomic step. Two goroutines adding at the same time interleave these loads and stores.
  The model runs the loops of two \<open>Add\<close> calls (after their \<open>bitpositions\<close>) as \<open>adder\<close>s,
  each step a load or a store of one goroutine, sequentially consistent, with a schedule
  saying which goroutine moves; the Go memory model gives a racy program no more than
  this, and this much is what the hardware does. A goroutine alone runs the loop of
  \<open>Add\<close> exactly; interleaved, an update can be lost.
\<close>

record adder =
  todo :: "u64 list"
  loaded :: "u64 option"

definition adder_of :: "u64 list \<Rightarrow> adder" where
  "adder_of ps = \<lparr>todo = ps, loaded = None\<rparr>"

text \<open>One step of a goroutine in the loop of \<open>Add\<close>: at the head position, either the
  load of \<open>bf.bitstore[index]\<close> or the store of the loaded value \<open>OR mask\<close>, which ends the
  iteration. A finished goroutine does not move; an index out of range panics, as in
  \<open>add_positions\<close>.\<close>

definition adder_step :: "u64 list \<Rightarrow> adder \<Rightarrow> panic + (u64 list \<times> adder)" where
  "adder_step store a =
     (case todo a of
        [] \<Rightarrow> Inr (store, a)
      | p # ps \<Rightarrow>
          (let (index, offset) = bitlocation p 64;
               mask = push_bit (unat offset) (1::u64)
           in if index < 0 \<or> int (length store) \<le> index then Inl IndexOutOfRange
              else (case loaded a of
                      None \<Rightarrow> Inr (store, a\<lparr>loaded := Some (store ! nat index)\<rparr>)
                    | Some v \<Rightarrow> Inr (store[nat index := v OR mask], adder_of ps))))"

text \<open>Two goroutines under a schedule: \<open>False\<close> moves the first, \<open>True\<close> the second.\<close>

fun interleave :: "u64 list \<Rightarrow> adder \<Rightarrow> adder \<Rightarrow> bool list \<Rightarrow> panic + (u64 list \<times> adder \<times> adder)" where
  "interleave store a1 a2 [] = Inr (store, a1, a2)"
| "interleave store a1 a2 (t # ts) =
     (if t then (case adder_step store a2 of
                   Inl pn \<Rightarrow> Inl pn
                 | Inr (store', a2') \<Rightarrow> interleave store' a1 a2' ts)
      else (case adder_step store a1 of
              Inl pn \<Rightarrow> Inl pn
            | Inr (store', a1') \<Rightarrow> interleave store' a1' a2 ts))"

subsection \<open>A goroutine alone is the loop of \<open>Add\<close>\<close>

lemma adder_step_load:
  "unat p < 64 * length s \<Longrightarrow>
   adder_step s \<lparr>todo = p # ps, loaded = None\<rparr> = Inr (s, \<lparr>todo = p # ps, loaded = Some (s ! (unat p div 64))\<rparr>)"
  using div_64_less [of "unat p" "length s"] by (simp add: adder_step_def bitlocation_64)

lemma adder_step_store:
  "unat p < 64 * length s \<Longrightarrow>
   adder_step s \<lparr>todo = p # ps, loaded = Some v\<rparr>
     = Inr (s[unat p div 64 := v OR 2 ^ (unat p mod 64)], adder_of ps)"
  using div_64_less [of "unat p" "length s"] by (simp add: adder_step_def bitlocation_64)

lemma adder_step_done: "adder_step s (adder_of []) = Inr (s, adder_of [])"
  by (simp add: adder_step_def adder_of_def)

lemma interleave_append:
  "interleave s a1 a2 (xs @ ys) =
     (case interleave s a1 a2 xs of Inl pn \<Rightarrow> Inl pn | Inr (s', a1', a2') \<Rightarrow> interleave s' a1' a2' ys)"
  by (induction s a1 a2 xs rule: interleave.induct) (auto split: sum.splits prod.splits)

lemma interleave_idle:
  "interleave s a1 (adder_of []) (replicate k True) = Inr (s, a1, adder_of [])"
  by (induction k) (simp_all add: adder_step_done)

lemma interleave_solo:
  "\<forall>p\<in>set ps. unat p < 64 * length s \<Longrightarrow>
   interleave s (adder_of ps) a2 (replicate (2 * length ps) False)
     = (case add_positions s ps of Inl pn \<Rightarrow> Inl pn | Inr s' \<Rightarrow> Inr (s', adder_of [], a2))"
proof (induction ps arbitrary: s)
  case Nil
  then show ?case by simp
next
  case (Cons p ps)
  have p: "unat p < 64 * length s" using Cons.prems by simp
  let ?s = "s[unat p div 64 := s ! (unat p div 64) OR 2 ^ (unat p mod 64)]"
  have "\<forall>q\<in>set ps. unat q < 64 * length ?s" using Cons.prems by simp
  then have "interleave ?s (adder_of ps) a2 (replicate (2 * length ps) False)
               = (case add_positions ?s ps of Inl pn \<Rightarrow> Inl pn | Inr s' \<Rightarrow> Inr (s', adder_of [], a2))"
    by (rule Cons.IH)
  moreover have "replicate (2 * length (p # ps)) False = False # False # replicate (2 * length ps) False" by simp
  ultimately show ?case using p
    by (simp add: adder_of_def adder_step_load adder_step_store add_positions_Cons del: add_positions.simps replicate.simps)
qed

lemma interleave_swap:
  "interleave s a2 a1 (map Not ts)
     = (case interleave s a1 a2 ts of Inl pn \<Rightarrow> Inl pn | Inr (s', b1, b2) \<Rightarrow> Inr (s', b2, b1))"
  by (induction s a1 a2 ts rule: interleave.induct) (auto split: sum.splits prod.splits)

text \<open>Run one after the other, the two goroutines are \<open>Add\<close> of the first element, then of
  the second.\<close>

lemma interleave_serial:
  assumes "\<forall>p\<in>set ps1. unat p < 64 * length s" "add_positions s ps1 = Inr s1"
    "\<forall>p\<in>set ps2. unat p < 64 * length s1"
  shows "interleave s (adder_of ps1) (adder_of ps2) (replicate (2 * length ps1) False @ replicate (2 * length ps2) True)
           = (case add_positions s1 ps2 of Inl pn \<Rightarrow> Inl pn | Inr s2 \<Rightarrow> Inr (s2, adder_of [], adder_of []))"
proof -
  have "replicate (2 * length ps2) True = map Not (replicate (2 * length ps2) False)" by simp
  then have "interleave s1 (adder_of []) (adder_of ps2) (replicate (2 * length ps2) True)
          = (case add_positions s1 ps2 of Inl pn \<Rightarrow> Inl pn | Inr s2 \<Rightarrow> Inr (s2, adder_of [], adder_of []))"
    using interleave_swap [of s1 "adder_of []" "adder_of ps2" "replicate (2 * length ps2) False"]
      interleave_solo [OF assms(3), of "adder_of []"] by (simp split: sum.splits)
  then show ?thesis using interleave_solo [OF assms(1), of "adder_of ps2"] assms(2) by (simp add: interleave_append)
qed

subsection \<open>Properties of concurrent \<open>Add\<close>\<close>

text \<open>C23: Two goroutines adding elements whose single positions are
  different bits of the same bucket race: when both load the bucket before either stores,
  the second store overwrites the first, the first element's bit is lost and \<open>Has\<close> of it
  answers \<open>false\<close>, a false negative; run one after the other, as under a mutex, both bits
  are set and \<open>Has\<close> answers \<open>true\<close>.\<close>

theorem concurrent_Add_race:
  assumes "wf_filter bf"
    and "bitpositions h e1 (hashqty bf) (bitlen bf) = Inr ([p], None)"
    and "bitpositions h e2 (hashqty bf) (bitlen bf) = Inr ([q], None)"
    and "unat p div 64 = unat q div 64" "p \<noteq> q" "unat p \<notin> set_bits bf"
  shows "(\<exists>s. interleave (bitstore bf) (adder_of [p]) (adder_of [q]) [False, True, False, True]
                = Inr (s, adder_of [], adder_of []) \<and> Has h (bf\<lparr>bitstore := s\<rparr>) e1 = Inr (False, None))
       \<and> (\<exists>s. interleave (bitstore bf) (adder_of [p]) (adder_of [q]) [False, False, True, True]
                = Inr (s, adder_of [], adder_of []) \<and> Has h (bf\<lparr>bitstore := s\<rparr>) e1 = Inr (True, None))"
proof -
  let ?s = "bitstore bf"
  have P: "unat p < 64 * length ?s" using positions_fit(1) [OF assms(1,2)] by simp
  have Q: "unat q < 64 * length ?s" using positions_fit(1) [OF assms(1,3)] by simp
  have pq: "unat p \<noteq> unat q" using assms(5) by (simp add: word_unat_eq_iff)
  let ?race = "?s[unat q div 64 := ?s ! (unat q div 64) OR 2 ^ (unat q mod 64)]"
  let ?s1 = "?s[unat p div 64 := ?s ! (unat p div 64) OR 2 ^ (unat p mod 64)]"
  let ?serial = "?s1[unat q div 64 := ?s1 ! (unat q div 64) OR 2 ^ (unat q mod 64)]"
  have has: "Has h (bf\<lparr>bitstore := s'\<rparr>) e1 = Inr (unat p \<in> bits_of s', None)" if "length s' = length ?s" for s'
    using assms(2) test_positions_ok [of "[p]" s'] P that by (simp add: Has_def)
  have "interleave ?s (adder_of [p]) (adder_of [q]) [False, True, False, True] = Inr (?race, adder_of [], adder_of [])"
    using P Q assms(4) by (simp add: adder_of_def adder_step_load adder_step_store)
  moreover have "bits_of ?race = insert (unat q) (bits_of ?s)" using Q by (rule bits_of_set_bit)
  ultimately have race: "\<exists>s. interleave ?s (adder_of [p]) (adder_of [q]) [False, True, False, True]
                = Inr (s, adder_of [], adder_of []) \<and> Has h (bf\<lparr>bitstore := s\<rparr>) e1 = Inr (False, None)"
    using has [of ?race] pq assms(6) by (simp add: set_bits_def)
  have "interleave ?s (adder_of [p]) (adder_of [q]) [False, False, True, True] = Inr (?serial, adder_of [], adder_of [])"
    using P Q by (simp add: adder_of_def adder_step_load adder_step_store)
  moreover have "bits_of ?serial = insert (unat q) (insert (unat p) (bits_of ?s))"
    using Q P by (simp add: bits_of_set_bit)
  ultimately have serial: "\<exists>s. interleave ?s (adder_of [p]) (adder_of [q]) [False, False, True, True]
                = Inr (s, adder_of [], adder_of []) \<and> Has h (bf\<lparr>bitstore := s\<rparr>) e1 = Inr (True, None)"
    using has [of ?serial] by simp
  from race serial show ?thesis by blast
qed

theorem concurrent_Add_race_witness:
  "(\<exists>s. interleave [0] (adder_of [55]) (adder_of [24]) [False, True, False, True]
          = Inr (s, adder_of [], adder_of [])
        \<and> Has sha256_hasher \<lparr>prob = 1 / 100, bitlen = 64, hashqty = 1, n_elems = 1, bitstore = s\<rparr>
            (bytes_of ''test'') = Inr (False, None))
   \<and> (\<exists>s. interleave [0] (adder_of [55]) (adder_of [24]) [False, False, True, True]
          = Inr (s, adder_of [], adder_of [])
        \<and> Has sha256_hasher \<lparr>prob = 1 / 100, bitlen = 64, hashqty = 1, n_elems = 1, bitstore = s\<rparr>
            (bytes_of ''test'') = Inr (True, None))"
proof -
  let ?bf = "\<lparr>prob = 1 / 100, bitlen = 64, hashqty = 1, n_elems = 1, bitstore = [0]\<rparr> :: Filter"
  have wf: "wf_filter ?bf" by (simp add: wf_filter_def)
  have e1: "bitpositions sha256_hasher (bytes_of ''test'') (hashqty ?bf) (bitlen ?bf) = Inr ([55], None)"
    by (simp add: bytes_of_def bitpositions_sha256 positions_spec_def hash_pos_def be_acc_def sha256_test_0)
  have e2: "bitpositions sha256_hasher [] (hashqty ?bf) (bitlen ?bf) = Inr ([24], None)"
    by (simp add: bitpositions_sha256 positions_spec_def hash_pos_def be_acc_def sha256_nil_0)
  have d: "unat (55::u64) div 64 = unat (24::u64) div 64" "(55::u64) \<noteq> 24" "unat (55::u64) \<notin> set_bits ?bf"
    by (simp_all add: set_bits_def mem_bits_of)
  show ?thesis using concurrent_Add_race [OF wf e1 e2 d] by simp
qed

end
