(* ===== verification/Spec2Isabelle.thy ===== *)
theory Spec2Isabelle
  imports Programs New_Float Concurrency
begin

text \<open>
  \<^bold>\<open>A verification library for marselester/bloom.\<close>

  The repository is a Bloom filter in Go. \<open>bloom.go\<close> (staged in
  \<open>src/examples_test.go\<close>, lines 73-247, after the package's examples) defines the
  \<open>Filter\<close> struct and \<open>New\<close>, \<open>Add\<close>, \<open>Has\<close>, \<open>MustAdd\<close>, \<open>MustHave\<close>, and the helpers
  \<open>optimalBitLen\<close>, \<open>optimalHashQty\<close>, \<open>bitpositions\<close>, \<open>hash\<close> and \<open>bitlocation\<close>.
  \<open>errors.go\<close> (\<open>src/unnamed/part_000\<close>, lines 507-523) defines the two error values,
  the tests and benchmarks are \<open>src/unnamed/part_000\<close>, and the fuzz target is
  \<open>src/fuzz.go\<close>. \<open>New\<close> sizes the filter from the capacity planner; \<open>Add\<close> and \<open>Has\<close>
  ask \<open>bitpositions\<close> for the element's positions (one \<open>hash\<close> per hash function:
  SHA-256, \<open>%x\<close>, \<open>strconv.ParseUint\<close> of the first 16 hex digits, modulo the bit
  length) and turn each position into a bucket and a bit with \<open>bitlocation\<close>.

  \<^bold>\<open>Theories.\<close>
  \<^item> \<open>Bloom_Prelude\<close>: Go's \<open>byte\<close>, \<open>uint32\<close>, \<open>uint64\<close> as \<open>8 word\<close>, \<open>32 word\<close>,
    \<open>64 word\<close>; the \<open>error\<close> values the code returns (\<open>errors.go\<close> and the library
    errors \<open>hash\<close> passes on) and the \<open>panic\<close>s that abort a call; \<open>bits_of\<close>, the set of
    positions set in a \<open>[]uint64\<close> read as a flat bit array; shared lemmas on bit masks,
    width conversions and in-place list updates.
  \<^item> \<open>Bit_Location\<close>: \<open>bitlocation\<close>, with the table of \<open>TestBitlocation\<close>.
  \<^item> \<open>Hex_Codec\<close>: the two library calls of \<open>hash\<close>, \<open>fmt.Sprintf("%x", _)\<close> and
    \<open>strconv.ParseUint(_, 16, 64)\<close>, written from the Go documentation and the library's
    algorithm (its cutoff and overflow checks), since they are not code of this repository.
  \<^item> \<open>Hashing\<close>: \<open>hash\<close> and \<open>bitpositions\<close>. SHA-256 is a parameter, the record
    \<open>hasher\<close> (whether \<open>Write\<close> fails, and the digest), so every theorem holds for any
    hash function; the loop of \<open>bitpositions\<close> over its \<open>byte\<close> counter is a
    \<open>function\<close> that terminates by the measure \<open>hashqty - i\<close>; its two slice writes
    are bounds-checked as in Go, an error inside it is a value, a panic the left side of a
    sum.
  \<^item> \<open>Log_Bounds\<close>: rational bounds on \<open>ln 2\<close> and \<open>ln 10\<close> to about \<open>10 ^ -15\<close>,
    from alternating series.
  \<^item> \<open>Capacity\<close>: \<open>optimalBitLen\<close> and \<open>optimalHashQty\<close> on the reals, with the Go
    float-to-integer conversion returning \<open>None\<close> where the Go specification leaves the
    result to the implementation; the tables of \<open>TestOptimalBitLen\<close> and
    \<open>TestOptimalHashQty\<close>, evaluated exactly with the bounds of \<open>Log_Bounds\<close>.
  \<^item> \<open>Capacity_Float\<close>: the same two functions in \<open>float64\<close>: every operation is the
    exact one followed by a rounding \<open>fl\<close>, and \<open>math.Log\<close> is a function \<open>lg\<close>. The
    theorems hold for every \<open>fl\<close> with relative error \<open>2 ^ -53\<close> on the normal range
    (\<open>rounding_ok\<close>; \<open>fl64\<close>, IEEE round-to-nearest-even, is one) and every \<open>lg\<close>
    within two ulp of \<open>ln\<close> (\<open>log_ok\<close>; the library documents less than one). A
    forward error analysis bounds the float values against the exact ones, and the tests
    \<open>TestOptimalBitLen\<close> and \<open>TestOptimalHashQty\<close> pass in \<open>float64\<close>, their
    probability literals rounded as the compiler rounds them.
  \<^item> \<open>New_Float\<close>: \<open>New_fp\<close>, \<open>New\<close> with the \<open>float64\<close> planner, which is \<open>New\<close>
    under exact arithmetic; \<open>TestNew\<close> and \<open>TestNew_error\<close> pass with it.
  \<^item> \<open>Concurrency\<close>: two goroutines running the loop of \<open>Add\<close> on one filter, its
    \<open>bf.bitstore[index] |= mask\<close> a load and a store (\<open>adder_step\<close>), interleaved by a
    schedule (\<open>interleave\<close>, sequentially consistent). A goroutine alone is the loop of
    \<open>Add\<close> and a serial schedule is one \<open>Add\<close> after the other; one interleaving loses an
    update.
  \<^item> \<open>Bloom_Filter\<close>: the \<open>Filter\<close> record (fields as in the struct; \<open>n\<close> is
    \<open>n_elems\<close>), \<open>New\<close> (\<open>New_with\<close>, with the capacity planner as a parameter, given the
    exact planner), \<open>Add\<close> and \<open>Has\<close> with their loops \<open>add_positions\<close> and
    \<open>test_positions\<close>, \<open>MustAdd\<close> and \<open>MustHave\<close>. A method on \<open>*Filter\<close> takes the
    filter and returns the updated one. The invariant \<open>wf_filter\<close> (buckets cover the bit
    length exactly, no bit set beyond it, no hash functions without bits) and the
    abstraction \<open>set_bits\<close> to a set of positions.
  \<^item> \<open>Lifecycle\<close>: a filter over a program's lifetime: \<open>step\<close> performs one \<open>Add\<close> or
    \<open>Has\<close> call, \<open>run\<close> a sequence of them, and the inductive \<open>reachable\<close> holds of every
    filter \<open>New\<close> and later \<open>Add\<close>s can produce.
  \<^item> \<open>Sha256\<close>: SHA-256 as \<open>crypto/sha256\<close> computes it (library code, from FIPS 180-4
    and the library's padding), executable, checked against the FIPS test vectors.
  \<^item> \<open>Package_Tests\<close>: \<open>sha256_hasher\<close>, the hasher \<open>hash\<close> really uses, and the tests
    that need it (\<open>TestHash\<close>, \<open>TestBitpositions\<close> with its \<open>equal\<close>,
    \<open>TestFilter_Add\<close>, \<open>TestFilter_Has\<close>), \<open>TestNew\<close> and \<open>TestNew_error\<close>, as Boolean functions
    that hold when the Go test passes. The 17 digests they need are evaluated by
    \<open>code_simp\<close>, in the kernel.
  \<^item> \<open>Programs\<close>: the programs that use the package: \<open>Example\<close>,
    \<open>Example_optimistic\<close> and \<open>ExampleNew_error\<close> of the examples, the README's
    \<open>main\<close>, \<open>Fuzz\<close>, and the two benchmarks without their timing, each with its
    \<open>outcome\<close> (output, \<open>log.Fatalf\<close>, panic, or unspecified).
  \<^item> this theory: the end-to-end property over all of them.

  \<^bold>\<open>What is proved.\<close> No false negatives, for a single \<open>Add\<close>/\<open>Has\<close> pair, for the
  panicking wrappers, and for any interleaving of calls in a run; every filter a program
  can hold is well-formed; \<open>Add\<close> refines insertion of the positions into the set of set
  bits and \<open>Has\<close> refines the subset test, on all branches, errors included; \<open>Add\<close> is
  idempotent and two additions commute; \<open>bitpositions\<close> always returns, never panics on a
  non-zero bit length (its slice writes stay in range), computes the positions of its
  specification, and on a write error returns a zero-padded slice; \<open>hash\<close> on every
  branch; \<open>%x\<close> then \<open>ParseUint\<close> is the big-endian value of the bytes;
  \<open>bitlocation\<close> splits a position into bucket and offset; \<open>New\<close> accepts exactly the
  documented arguments and, for a probability in \<open>[2 ^ -255, 1]\<close>, always returns an
  empty well-formed filter; every run of calls with a hasher that never fails completes
  (progress); end to end with SHA-256, any elements added to a filter from \<open>New\<close> are
  all found. In \<open>float64\<close>: the planner's values are within a relative \<open>2 ^ -48\<close> of
  the exact ones for every probability in \<open>[2 ^ -1021, 1 / 2]\<close>; the hash count is
  \<open>\<lceil>log2 (1 / prob)\<rceil>\<close> up to that error (one more is possible at an exact power of two)
  for \<open>prob \<ge> 2 ^ -254\<close>, and overflows its \<open>byte\<close> for \<open>prob \<le> 2 ^ -256\<close>;
  \<open>TestNew\<close>, \<open>TestNew_error\<close>, \<open>TestOptimalBitLen\<close> and \<open>TestOptimalHashQty\<close>
  pass. The outputs of the examples, of the README program and of the fuzz target, and
  that the benchmarks run any number of iterations; and that two concurrent \<open>Add\<close>s can
  lose an update, so that \<open>Has\<close> of an added element answers \<open>false\<close>, where the serial
  order cannot. Lemmas that are not listed as properties evaluate the remaining tests
  (\<open>TestHash\<close>, \<open>TestBitpositions\<close>, \<open>TestFilter_Add\<close>, \<open>TestFilter_Has\<close>,
  \<open>TestBitlocation\<close>) and check SHA-256 against the FIPS vectors.

  \<^bold>\<open>Bounds.\<close> The exact planner is stated for probabilities down to \<open>2 ^ -255\<close>,
  where \<open>\<lceil>log2 (1 / prob)\<rceil>\<close> stops fitting the \<open>byte\<close> of \<open>hashqty\<close>. The float
  analysis covers \<open>[2 ^ -1021, 1 / 2]\<close>: every intermediate value then stays in the normal
  range of \<open>float64\<close>, where \<open>rounding_ok\<close> bounds the error; between \<open>2 ^ -256\<close> and
  \<open>2 ^ -254\<close> the float hash count is 254 to 256 depending on the rounding, and the
  theorems leave it open. For 32-bit \<open>n\<close> and these probabilities the bit length
  stays below \<open>2 ^ 63\<close>, so the \<open>uint64\<close> conversion is always in range.
  No fuel is used: every loop is structural recursion or has a measure.

  \<^bold>\<open>Not modelled.\<close> The exact bits \<open>math.Log\<close> returns: the library only documents
  an error below one ulp, so the model takes every function within two ulp; the general
  theorems on \<open>New\<close> (its result, the invariant, the end-to-end property) are stated with
  the exact planner, which agrees with the float one wherever the exact value is more than
  a relative \<open>2 ^ -48\<close> from an integer (\<open>optimalBitLen_fp_eq\<close>), as on every input
  of the tests; the probabilities \<open>NaN\<close> and \<open>+Inf\<close>, which
  \<open>prob <= 0\<close> lets through and whose conversions are implementation-dependent (the model's
  probability is a real); allocation failure of \<open>make\<close>; the timing of the benchmarks;
  concurrency beyond two goroutines adding under sequential consistency (the struct is
  documented as not safe for concurrent use; the Go memory model gives a racy program no
  guarantee, so the model shows what can go wrong, not all that can). The
  theorems of \<open>Hashing\<close>, \<open>Bloom_Filter\<close> and \<open>Lifecycle\<close> stay stated for any hasher,
  and \<open>sha256_hasher\<close> instantiates them.
\<close>

subsection \<open>Properties across the components\<close>

text \<open>C3: End to end, with SHA-256: on every filter \<open>New\<close>
  returns, adding any list of elements succeeds at every call, and then testing each of
  them answers \<open>true\<close> with no error: sizing, hashing, bit addressing and the bit store
  together have no false negatives.\<close>

theorem sha256_adds_then_has:
  assumes "New n p = Some (Inr bf)"
  shows "\<exists>bf'. run sha256_hasher bf (map OpAdd es @ map OpHas es)
                = Inr (replicate (length es) (AddDone None) @ replicate (length es) (HasDone True None), bf')"
proof -
  obtain bf' where r: "run sha256_hasher bf (map OpAdd es) = Inr (replicate (length es) (AddDone None), bf')"
    and hs: "\<forall>e\<in>set es. Has sha256_hasher bf' e = Inr (True, None)"
    using run_adds [OF sha256_hasher_all_ok New_wf [OF assms]] by blast
  show ?thesis using r run_hass [OF hs] by (simp add: run_append)
qed

theorem sha256_adds_then_has_witness:
  "\<exists>bf'. run sha256_hasher \<lparr>prob = 1, bitlen = 0, hashqty = 0, n_elems = 1, bitstore = []\<rparr>
          (map OpAdd [bytes_of ''test'', []] @ map OpHas [bytes_of ''test'', []])
        = Inr ([AddDone None, AddDone None, HasDone True None, HasDone True None], bf')"
  using sha256_adds_then_has [OF New_1_1, of "[bytes_of ''test'', []]"] by (simp add: numeral_2_eq_2)

end
